theory Spec2Isabelle
  imports Main "HOL-Library.AList" "HOL-Library.Multiset"
begin

section \<open>Values and state of the habit tracker\<close>

text \<open>
  The program (\<^verbatim>\<open>src/habit.js\<close>) keeps two module-level variables, \<^verbatim>\<open>habits\<close> (an
  array of habit objects) and \<^verbatim>\<open>completions\<close> (an object from habit id to an object from
  date key to a state string). Both hold plain JSON data: they are read from storage,
  taken from an imported file, or built from object literals. A value is therefore a
  JSON document. Numbers are integers (the only numbers the program computes with are the
  \<^verbatim>\<open>order\<close> fields). An object is the list of its own properties in enumeration order;
  \<^verbatim>\<open>undefined\<close>, the result of reading a missing property, is \<open>None\<close> of
  \<open>json option\<close>. A list of own properties does not show the members that every
  object inherits (\<^verbatim>\<open>constructor\<close>, \<^verbatim>\<open>toString\<close> and the like), and it does not
  say where a new property is enumerated. The functions of the next section read and
  write own properties and append what is new, which is what the program does on the
  ids that \<^verbatim>\<open>generateId\<close> makes and the date keys that \<^verbatim>\<open>formatDate\<close> writes; the
  section on property names of any shape covers the other names.
\<close>

datatype json =
    JNull
  | JBool bool
  | JNum int
  | JStr string
  | JArr "json list"
  | JObj "(string \<times> json) list"

text \<open>
  \<open>TypeError\<close> is JavaScript's own exception. \<open>Unsupported\<close> marks the places where the
  program would go on with a value this fragment does not describe (a named property
  written to an array or to a primitive, arithmetic on a non-number, a date key that is
  not a calendar date): the model stops there instead of guessing.
\<close>

datatype fault = TypeError | Unsupported

record state =
  habits :: "json list"
  completions :: json

text \<open>JavaScript's \<^verbatim>\<open>ToBoolean\<close>, on a value and on a possibly undefined value.\<close>

fun truthy :: "json \<Rightarrow> bool" where
  "truthy JNull = False"
| "truthy (JBool b) = b"
| "truthy (JNum n) = (n \<noteq> 0)"
| "truthy (JStr s) = (s \<noteq> [])"
| "truthy (JArr xs) = True"
| "truthy (JObj ps) = True"

fun truthyU :: "json option \<Rightarrow> bool" where
  "truthyU None = False"
| "truthyU (Some v) = truthy v"

text \<open>
  \<^verbatim>\<open>x.f\<close> for one of the fixed field names \<^verbatim>\<open>id\<close>, \<^verbatim>\<open>name\<close>, \<^verbatim>\<open>order\<close>,
  \<^verbatim>\<open>habits\<close>, \<^verbatim>\<open>completions\<close>: it throws on \<^verbatim>\<open>null\<close>, reads the property of an
  object, and is \<^verbatim>\<open>undefined\<close> on every other JSON value (none of them has a member of
  one of these names).
\<close>

fun getField :: "json \<Rightarrow> string \<Rightarrow> fault + json option" where
  "getField JNull f = Inl TypeError"
| "getField (JObj ps) f = Inr (map_of ps f)"
| "getField v f = Inr None"

section \<open>Toggling and reading a cell\<close>

text \<open>
  \<^verbatim>\<open>
  function toggleCompletion(habitId, dateStr) {
    if (!completions[habitId]) {
      completions[habitId] = {};
    }
    const currentState = completions[habitId][dateStr];
    if (!currentState) {
      completions[habitId][dateStr] = 'done';
    } else if (currentState === 'done') {
      completions[habitId][dateStr] = 'skipped';
    } else {
      delete completions[habitId][dateStr];
    }
    saveCompletions();
    renderHabits();
  }
  \<close>
  \<open>toggleCell\<close> is the if-chain on the per-date record; \<open>entryOf\<close> is the record the
  chain works on, the fresh \<^verbatim>\<open>{}\<close> when the habit's entry is missing or falsy.
  Assigning to a property replaces its value in place or appends a new property;
  \<^verbatim>\<open>delete\<close> removes it.
\<close>

definition toggleCell :: "string \<Rightarrow> (string \<times> json) list \<Rightarrow> (string \<times> json) list" where
  "toggleCell dateStr ds =
     (let currentState = map_of ds dateStr in
      if \<not> truthyU currentState then AList.update dateStr (JStr ''done'') ds
      else if currentState = Some (JStr ''done'') then AList.update dateStr (JStr ''skipped'') ds
      else AList.delete dateStr ds)"

definition entryOf :: "(string \<times> json) list \<Rightarrow> string \<Rightarrow> json" where
  "entryOf cs habitId =
     (case map_of cs habitId of
        None \<Rightarrow> JObj []
      | Some e \<Rightarrow> if truthy e then e else JObj [])"

definition toggleCompletion :: "string \<Rightarrow> string \<Rightarrow> state \<Rightarrow> fault + state" where
  "toggleCompletion habitId dateStr s =
     (case completions s of
        JNull \<Rightarrow> Inl TypeError
      | JObj cs \<Rightarrow>
          (case entryOf cs habitId of
             JObj ds \<Rightarrow>
               Inr (s\<lparr>completions := JObj (AList.update habitId (JObj (toggleCell dateStr ds)) cs)\<rparr>)
           | _ \<Rightarrow> Inl Unsupported)
      | _ \<Rightarrow> Inl Unsupported)"

text \<open>
  \<^verbatim>\<open>
  function getHabitState(habitId, dateStr) {
    return completions[habitId]?.[dateStr] || null;
  }
  \<close>
\<close>

definition getHabitState :: "string \<Rightarrow> string \<Rightarrow> state \<Rightarrow> fault + json" where
  "getHabitState habitId dateStr s =
     (case completions s of
        JNull \<Rightarrow> Inl TypeError
      | JObj cs \<Rightarrow>
          (case map_of cs habitId of
             None \<Rightarrow> Inr JNull
           | Some JNull \<Rightarrow> Inr JNull
           | Some (JObj ds) \<Rightarrow>
               (case map_of ds dateStr of
                  None \<Rightarrow> Inr JNull
                | Some v \<Rightarrow> Inr (if truthy v then v else JNull))
           | Some _ \<Rightarrow> Inl Unsupported)
      | _ \<Rightarrow> Inl Unsupported)"

section \<open>Date keys\<close>

text \<open>
  A date key is the string \<^verbatim>\<open>YYYY-MM-DD\<close> that \<^verbatim>\<open>formatDate\<close> writes. \<^verbatim>\<open>new Date(key)\<close>
  reads such a key as midnight UTC of that calendar day, so its time value is
  \<open>86400000\<close> times the number of days since 1970-01-01. \<open>parseDate\<close> accepts exactly
  the keys of that shape that name a day of the proleptic Gregorian calendar; what the
  host makes of any other string is not described here.
\<close>

definition digitVal :: "char \<Rightarrow> nat option" where
  "digitVal c =
     (let code = (of_char c :: nat) in
      if 48 \<le> code \<and> code \<le> 57 then Some (code - 48) else None)"

fun digitsVal :: "string \<Rightarrow> nat \<Rightarrow> nat option" where
  "digitsVal [] acc = Some acc"
| "digitsVal (c # cs) acc =
     (case digitVal c of None \<Rightarrow> None | Some d \<Rightarrow> digitsVal cs (10 * acc + d))"

definition isLeap :: "nat \<Rightarrow> bool" where
  "isLeap y = ((y mod 4 = 0 \<and> y mod 100 \<noteq> 0) \<or> y mod 400 = 0)"

definition daysInMonth :: "nat \<Rightarrow> nat \<Rightarrow> nat" where
  "daysInMonth y m =
     (if m = 2 then (if isLeap y then 29 else 28)
      else if m = 4 \<or> m = 6 \<or> m = 9 \<or> m = 11 then 30
      else 31)"

definition daysBeforeMonth :: "nat \<Rightarrow> nat \<Rightarrow> nat" where
  "daysBeforeMonth y m = sum_list (map (daysInMonth y) [1..<m])"

definition daysBeforeYear :: "nat \<Rightarrow> nat" where
  "daysBeforeYear y = 365 * y + (y + 3) div 4 - (y + 99) div 100 + (y + 399) div 400"

definition validDate :: "nat \<Rightarrow> nat \<Rightarrow> nat \<Rightarrow> bool" where
  "validDate y m d = (1 \<le> m \<and> m \<le> 12 \<and> 1 \<le> d \<and> d \<le> daysInMonth y m)"

text \<open>Days since 1970-01-01; day \<open>719528\<close> counted from 0000-01-01 is 1970-01-01.\<close>

definition epochDay :: "nat \<Rightarrow> nat \<Rightarrow> nat \<Rightarrow> int" where
  "epochDay y m d = int (daysBeforeYear y + daysBeforeMonth y m + d) - 1 - 719528"

definition parseDate :: "string \<Rightarrow> int option" where
  "parseDate s =
     (case s of
        [y1, y2, y3, y4, s1, m1, m2, s2, d1, d2] \<Rightarrow>
          (if s1 = CHR ''-'' \<and> s2 = CHR ''-'' then
             (case (digitsVal [y1, y2, y3, y4] 0, digitsVal [m1, m2] 0, digitsVal [d1, d2] 0) of
                (Some y, Some m, Some d) \<Rightarrow>
                  if validDate y m d then Some (epochDay y m d) else None
              | _ \<Rightarrow> None)
           else None)
      | _ \<Rightarrow> None)"

definition msPerDay :: int where
  "msPerDay = 86400000"

text \<open>The time value of \<^verbatim>\<open>new Date(key)\<close>, in milliseconds.\<close>

definition dateMs :: "string \<Rightarrow> int option" where
  "dateMs s = map_option (\<lambda>d. msPerDay * d) (parseDate s)"

text \<open>\<^verbatim>\<open>Math.round(ms / 86400000)\<close>: the nearest integer, halves rounded up.\<close>

definition roundDays :: "int \<Rightarrow> int" where
  "roundDays ms = (2 * ms + msPerDay) div (2 * msPerDay)"

section \<open>The streak calculator\<close>

text \<open>
  \<^verbatim>\<open>
  function calculateStreak(habitId) {
    const habitData = completions[habitId] || {};
    const doneDates = Object.entries(habitData)
      .filter(([_, state]) => state === 'done')
      .map(([date, _]) => date);
    if (doneDates.length === 0) return { current: 0, longest: 0 };
    const sortedDates = [...doneDates].sort((a, b) => new Date(b) - new Date(a));
    let current = 0;
    const today = formatDate(new Date());
    const yesterday = formatDate(new Date(Date.now() - 86400000));
    if (sortedDates[0] === today || sortedDates[0] === yesterday) {
      current = 1;
      for (let i = 1; i < sortedDates.length; i++) {
        const prevDate = new Date(sortedDates[i - 1]);
        const currDate = new Date(sortedDates[i]);
        const diffDays = Math.round((prevDate - currDate) / 86400000);
        if (diffDays === 1) { current++; } else { break; }
      }
    }
    let longest = 1;
    let tempStreak = 1;
    const sortedAsc = [...doneDates].sort((a, b) => new Date(a) - new Date(b));
    for (let i = 1; i < sortedAsc.length; i++) {
      const prevDate = new Date(sortedAsc[i - 1]);
      const currDate = new Date(sortedAsc[i]);
      const diffDays = Math.round((currDate - prevDate) / 86400000);
      if (diffDays === 1) {
        tempStreak++;
        longest = Math.max(longest, tempStreak);
      } else if (diffDays > 1) {
        tempStreak = 1;
      }
    }
    return { current, longest };
  }
  \<close>
  The two clock readings \<^verbatim>\<open>today\<close> and \<^verbatim>\<open>yesterday\<close> are arguments. The two loops
  run over the time values of the sorted keys. \<^verbatim>\<open>sort\<close> is stable and the comparators
  order by time value, which is what \<open>sort_key\<close> does.
\<close>

record streak =
  current :: nat
  longest :: nat

definition doneDates :: "(string \<times> json) list \<Rightarrow> string list" where
  "doneDates habitData = map fst (filter (\<lambda>(date, st). st = JStr ''done'') habitData)"

fun currentLoop :: "int list \<Rightarrow> nat \<Rightarrow> nat" where
  "currentLoop (prevDate # currDate # rest) cur =
     (if roundDays (prevDate - currDate) = 1 then currentLoop (currDate # rest) (cur + 1)
      else cur)"
| "currentLoop _ cur = cur"

fun longestLoop :: "int list \<Rightarrow> nat \<Rightarrow> nat \<Rightarrow> nat" where
  "longestLoop (prevDate # currDate # rest) tempStreak lng =
     (let diffDays = roundDays (currDate - prevDate) in
      if diffDays = 1 then longestLoop (currDate # rest) (tempStreak + 1) (max lng (tempStreak + 1))
      else if diffDays > 1 then longestLoop (currDate # rest) 1 lng
      else longestLoop (currDate # rest) tempStreak lng)"
| "longestLoop _ tempStreak lng = lng"

definition timeOf :: "string \<Rightarrow> int" where
  "timeOf s = the (dateMs s)"

definition streakOf :: "string \<Rightarrow> string \<Rightarrow> (string \<times> json) list \<Rightarrow> fault + streak" where
  "streakOf today yesterday habitData =
     (let dd = doneDates habitData in
      if dd = [] then Inr \<lparr>current = 0, longest = 0\<rparr>
      else if \<exists>d \<in> set dd. dateMs d = None then Inl Unsupported
      else
        let sortedDates = sort_key (\<lambda>d. - timeOf d) dd;
            cur = (if hd sortedDates = today \<or> hd sortedDates = yesterday
                   then currentLoop (map timeOf sortedDates) 1 else 0);
            sortedAsc = sort_key timeOf dd
        in Inr \<lparr>current = cur, longest = longestLoop (map timeOf sortedAsc) 1 1\<rparr>)"

definition calculateStreak :: "string \<Rightarrow> string \<Rightarrow> string \<Rightarrow> state \<Rightarrow> fault + streak" where
  "calculateStreak today yesterday habitId s =
     (case completions s of
        JNull \<Rightarrow> Inl TypeError
      | JObj cs \<Rightarrow>
          (case entryOf cs habitId of
             JObj habitData \<Rightarrow> streakOf today yesterday habitData
           | _ \<Rightarrow> Inl Unsupported)
      | _ \<Rightarrow> Inl Unsupported)"

section \<open>Habit management\<close>

text \<open>
  \<^verbatim>\<open>String.prototype.trim\<close> removes white space and line terminators at both ends.
  A string here is a sequence of code units below 256, a character being its code unit.
  The white space and line terminators among them are tab (U+0009), line feed (U+000A),
  vertical tab (U+000B), form feed (U+000C), carriage return (U+000D), space (U+0020) and
  no-break space (U+00A0); the others that \<^verbatim>\<open>trim\<close> removes (U+1680, U+2000 to U+200A,
  U+2028, U+2029, U+202F, U+205F, U+3000, U+FEFF) lie above 255.
\<close>

definition isSpace :: "char \<Rightarrow> bool" where
  "isSpace c = (c = CHR 0x09 \<or> c = CHR 0x0A \<or> c = CHR 0x0B \<or> c = CHR 0x0C \<or> c = CHR 0x0D
                \<or> c = CHR 0x20 \<or> c = CHR 0xA0)"

definition trim :: "string \<Rightarrow> string" where
  "trim s = rev (dropWhile isSpace (rev (dropWhile isSpace s)))"

text \<open>
  \<^verbatim>\<open>h.order || 0\<close>, as the number that \<^verbatim>\<open>Math.max\<close> and the subtraction in the sort
  comparator see.
\<close>

definition orderOr0 :: "json \<Rightarrow> fault + int" where
  "orderOr0 h =
     (case getField h ''order'' of
        Inl e \<Rightarrow> Inl e
      | Inr None \<Rightarrow> Inr 0
      | Inr (Some v) \<Rightarrow>
          if \<not> truthy v then Inr 0
          else (case v of JNum n \<Rightarrow> Inr n | _ \<Rightarrow> Inl Unsupported))"

text \<open>\<^verbatim>\<open>habits.reduce((max, h) => Math.max(max, h.order || 0), 0)\<close>\<close>

fun maxOrderOf :: "json list \<Rightarrow> int \<Rightarrow> fault + int" where
  "maxOrderOf [] mx = Inr mx"
| "maxOrderOf (h # hs) mx =
     (case orderOr0 h of Inl e \<Rightarrow> Inl e | Inr n \<Rightarrow> maxOrderOf hs (max mx n))"

text \<open>
  Writing and deleting a property under a computed name, \<^verbatim>\<open>o[k] = v\<close> and
  \<^verbatim>\<open>delete o[k]\<close>.
\<close>

fun setProp :: "json \<Rightarrow> string \<Rightarrow> json \<Rightarrow> fault + json" where
  "setProp JNull k v = Inl TypeError"
| "setProp (JObj ps) k v = Inr (JObj (AList.update k v ps))"
| "setProp u k v = Inl Unsupported"

fun deleteProp :: "json \<Rightarrow> string \<Rightarrow> fault + json" where
  "deleteProp JNull k = Inl TypeError"
| "deleteProp (JObj ps) k = Inr (JObj (AList.delete k ps))"
| "deleteProp u k = Inl Unsupported"

text \<open>
  \<^verbatim>\<open>
  function addHabit(name) {
    const maxOrder = habits.reduce((max, h) => Math.max(max, h.order || 0), 0);
    const habit = {
      id: generateId(),
      name: name.trim(),
      order: maxOrder + 1,
      createdAt: new Date().toISOString()
    };
    habits.push(habit);
    completions[habit.id] = {};
    saveHabits(); saveCompletions(); renderHabits();
    showToast('Habit added');
  }
  \<close>
  The generated id and the clock reading are arguments. The program's numbers are
  doubles, which hold every integer up to \<open>9007199254740992\<close> (2 to the power 53);
  \<^verbatim>\<open>maxOrder + 1\<close> is the integer sum as long as \<^verbatim>\<open>maxOrder\<close> is below that number,
  and the model stops beyond.
\<close>

definition addHabit :: "string \<Rightarrow> string \<Rightarrow> string \<Rightarrow> state \<Rightarrow> fault + state" where
  "addHabit newId createdAt name s =
     (case maxOrderOf (habits s) 0 of
        Inl e \<Rightarrow> Inl e
      | Inr maxOrder \<Rightarrow>
          if 9007199254740992 \<le> maxOrder then Inl Unsupported
          else
            let habit = JObj [(''id'', JStr newId), (''name'', JStr (trim name)),
                              (''order'', JNum (maxOrder + 1)), (''createdAt'', JStr createdAt)]
            in (case setProp (completions s) newId (JObj []) of
                  Inl e \<Rightarrow> Inl e
                | Inr cs \<Rightarrow> Inr \<lparr>habits = habits s @ [habit], completions = cs\<rparr>))"

text \<open>
  The submit handler of the add-habit form, the only caller of \<^verbatim>\<open>addHabit\<close>:
  \<^verbatim>\<open>
    const input = document.getElementById('habitInput');
    if (input.value.trim()) {
      addHabit(input.value);
      input.value = '';
    }
  \<close>
\<close>

definition addHabitFormSubmit :: "string \<Rightarrow> string \<Rightarrow> string \<Rightarrow> state \<Rightarrow> fault + state" where
  "addHabitFormSubmit newId createdAt inputValue s =
     (if trim inputValue \<noteq> [] then addHabit newId createdAt inputValue s else Inr s)"

text \<open>
  \<^verbatim>\<open>
  function deleteHabit(habitId) {
    const habit = habits.find(h => h.id === habitId);
    if (!habit) return;
    showConfirm(..., () => {
        habits = habits.filter(h => h.id !== habitId);
        delete completions[habitId];
        ...
    });
  }
  \<close>
  \<open>deleteHabit\<close> says whether the dialog is opened; \<open>deleteHabitConfirmed\<close> is the body
  of the closure that is handed to \<^verbatim>\<open>showConfirm\<close>. What the dialog does with the
  closure is in the section on the confirmation dialog.
\<close>

fun findHabit :: "json list \<Rightarrow> string \<Rightarrow> fault + json option" where
  "findHabit [] habitId = Inr None"
| "findHabit (h # hs) habitId =
     (case getField h ''id'' of
        Inl e \<Rightarrow> Inl e
      | Inr i \<Rightarrow> if i = Some (JStr habitId) then Inr (Some h) else findHabit hs habitId)"

fun filterOthers :: "json list \<Rightarrow> string \<Rightarrow> fault + json list" where
  "filterOthers [] habitId = Inr []"
| "filterOthers (h # hs) habitId =
     (case getField h ''id'' of
        Inl e \<Rightarrow> Inl e
      | Inr i \<Rightarrow>
          (case filterOthers hs habitId of
             Inl e \<Rightarrow> Inl e
           | Inr hs' \<Rightarrow> Inr (if i \<noteq> Some (JStr habitId) then h # hs' else hs')))"

definition deleteHabit :: "string \<Rightarrow> state \<Rightarrow> fault + bool" where
  "deleteHabit habitId s =
     (case findHabit (habits s) habitId of
        Inl e \<Rightarrow> Inl e
      | Inr None \<Rightarrow> Inr False
      | Inr (Some habit) \<Rightarrow> Inr True)"

definition deleteHabitConfirmed :: "string \<Rightarrow> state \<Rightarrow> fault + state" where
  "deleteHabitConfirmed habitId s =
     (case filterOthers (habits s) habitId of
        Inl e \<Rightarrow> Inl e
      | Inr hs \<Rightarrow>
          (case deleteProp (completions s) habitId of
             Inl e \<Rightarrow> Inl e
           | Inr cs \<Rightarrow> Inr \<lparr>habits = hs, completions = cs\<rparr>))"

text \<open>
  \<^verbatim>\<open>
  function reorderHabits(fromIndex, toIndex) {
    const [moved] = habits.splice(fromIndex, 1);
    habits.splice(toIndex, 0, moved);
    habits.forEach((habit, index) => {
      habit.order = index;
    });
    saveHabits();
    renderHabits();
  }
  \<close>
  The indices are row numbers, so they are natural numbers. \<^verbatim>\<open>splice\<close> removes
  nothing when \<^verbatim>\<open>fromIndex\<close> is past the end, and then \<^verbatim>\<open>moved\<close> is
  \<^verbatim>\<open>undefined\<close> and is inserted as such; an insertion index past the end inserts at
  the end. Between the two \<^verbatim>\<open>splice\<close> calls and \<^verbatim>\<open>forEach\<close> the array can thus
  hold \<^verbatim>\<open>undefined\<close>, so it is a list of \<open>json option\<close> there.
\<close>

fun assignOrders :: "json option list \<Rightarrow> nat \<Rightarrow> fault + json list" where
  "assignOrders [] index = Inr []"
| "assignOrders (None # hs) index = Inl TypeError"
| "assignOrders (Some JNull # hs) index = Inl TypeError"
| "assignOrders (Some (JObj ps) # hs) index =
     (case assignOrders hs (index + 1) of
        Inl e \<Rightarrow> Inl e
      | Inr hs' \<Rightarrow> Inr (JObj (AList.update ''order'' (JNum (int index)) ps) # hs'))"
| "assignOrders (Some v # hs) index = Inl Unsupported"

definition spliceMove :: "nat \<Rightarrow> nat \<Rightarrow> 'a list \<Rightarrow> 'a option list" where
  "spliceMove fromIndex toIndex xs =
     (let moved = (if fromIndex < length xs then Some (xs ! fromIndex) else None);
          rest = map Some (take fromIndex xs @ drop (Suc fromIndex) xs)
      in take toIndex rest @ [moved] @ drop toIndex rest)"

definition reorderHabits :: "nat \<Rightarrow> nat \<Rightarrow> state \<Rightarrow> fault + state" where
  "reorderHabits fromIndex toIndex s =
     (case assignOrders (spliceMove fromIndex toIndex (habits s)) 0 of
        Inl e \<Rightarrow> Inl e
      | Inr hs \<Rightarrow> Inr (s\<lparr>habits := hs\<rparr>))"

text \<open>
  The rows that \<^verbatim>\<open>renderHabits\<close> draws, and whose positions the drop handler passes
  to \<^verbatim>\<open>reorderHabits\<close>:
  \<^verbatim>\<open>const sortedHabits = [...habits].sort((a, b) => (a.order || 0) - (b.order || 0));\<close>
\<close>

fun ordersOf :: "json list \<Rightarrow> fault + int list" where
  "ordersOf [] = Inr []"
| "ordersOf (h # hs) =
     (case orderOr0 h of
        Inl e \<Rightarrow> Inl e
      | Inr n \<Rightarrow> (case ordersOf hs of Inl e \<Rightarrow> Inl e | Inr ns \<Rightarrow> Inr (n # ns)))"

definition sortedHabits :: "json list \<Rightarrow> fault + json list" where
  "sortedHabits hs =
     (case ordersOf hs of
        Inl e \<Rightarrow> Inl e
      | Inr ns \<Rightarrow> Inr (map snd (sort_key fst (zip ns hs))))"

section \<open>Loading and the migration of array-based completions\<close>

text \<open>
  \<^verbatim>\<open>
  async function loadData() {
    try {
      const result = await chrome.storage.local.get([...]);
      habits = result[STORAGE_KEYS.habits] || [];
      completions = result[STORAGE_KEYS.completions] || {};
      let needsMigration = false;
      for (const habitId of Object.keys(completions)) {
        if (Array.isArray(completions[habitId])) {
          const oldDates = completions[habitId];
          completions[habitId] = {};
          for (const date of oldDates) {
            completions[habitId][date] = 'done';
          }
          needsMigration = true;
        }
      }
      if (needsMigration) { await saveCompletions(); }
    } catch (error) { ... }
  }
  \<close>
  The stored habit list is an array or absent; the stored completions are any value or
  absent. The result is the loaded state and the flag \<^verbatim>\<open>needsMigration\<close>. An old date
  that is not a string would be turned into a property name by the host, which is not
  described here.
\<close>

fun migrateDates :: "json list \<Rightarrow> (string \<times> json) list \<Rightarrow> fault + (string \<times> json) list" where
  "migrateDates [] entry = Inr entry"
| "migrateDates (JStr date # oldDates) entry =
     migrateDates oldDates (AList.update date (JStr ''done'') entry)"
| "migrateDates (v # oldDates) entry = Inl Unsupported"

fun migrateLoop :: "string list \<Rightarrow> (string \<times> json) list \<Rightarrow> bool
    \<Rightarrow> fault + ((string \<times> json) list \<times> bool)" where
  "migrateLoop [] cs needsMigration = Inr (cs, needsMigration)"
| "migrateLoop (habitId # keys) cs needsMigration =
     (case map_of cs habitId of
        Some (JArr oldDates) \<Rightarrow>
          (case migrateDates oldDates [] of
             Inl e \<Rightarrow> Inl e
           | Inr entry \<Rightarrow> migrateLoop keys (AList.update habitId (JObj entry) cs) True)
      | _ \<Rightarrow> migrateLoop keys cs needsMigration)"

definition loadData :: "json list option \<Rightarrow> json option \<Rightarrow> fault + (state \<times> bool)" where
  "loadData storedHabits storedCompletions =
     (let hs = (case storedHabits of None \<Rightarrow> [] | Some xs \<Rightarrow> xs);
          cs0 = (if truthyU storedCompletions then the storedCompletions else JObj [])
      in case cs0 of
           JObj cs \<Rightarrow>
             (case migrateLoop (map fst cs) cs False of
                Inl e \<Rightarrow> Inl e
              | Inr (cs', needsMigration) \<Rightarrow>
                  Inr (\<lparr>habits = hs, completions = JObj cs'\<rparr>, needsMigration))
         | _ \<Rightarrow> Inl Unsupported)"

section \<open>The view window\<close>

text \<open>
  \<^verbatim>\<open>viewEndDate\<close> is a \<^verbatim>\<open>Date\<close>: a time value in milliseconds, here on the local
  time line with days of 24 hours. It starts as \<^verbatim>\<open>new Date()\<close>.
  \<^verbatim>\<open>
  prevWeek:   viewEndDate.setDate(viewEndDate.getDate() - 14);
  nextWeek:   const today = new Date();
              today.setHours(0, 0, 0, 0);
              const proposedEnd = new Date(viewEndDate);
              proposedEnd.setDate(proposedEnd.getDate() + 14);
              if (proposedEnd <= today) { viewEndDate = proposedEnd; }
              else { viewEndDate = today; }
  todayBtn:   viewEndDate = new Date();
  \<close>
  Each handler reads the clock when it runs; the reading is the argument \<open>now\<close>.
\<close>

definition startOfDay :: "int \<Rightarrow> int" where
  "startOfDay t = t - t mod msPerDay"

definition dayOf :: "int \<Rightarrow> int" where
  "dayOf t = t div msPerDay"

definition initialViewEnd :: "int \<Rightarrow> int" where
  "initialViewEnd now = now"

definition prevWeek :: "int \<Rightarrow> int" where
  "prevWeek viewEndDate = viewEndDate - 14 * msPerDay"

definition nextWeek :: "int \<Rightarrow> int \<Rightarrow> int" where
  "nextWeek now viewEndDate =
     (let today = startOfDay now;
          proposedEnd = viewEndDate + 14 * msPerDay
      in if proposedEnd \<le> today then proposedEnd else today)"

definition todayBtn :: "int \<Rightarrow> int" where
  "todayBtn now = now"

datatype nav = PrevWeek | NextWeek | TodayBtn

fun navStep :: "int \<Rightarrow> nav \<Rightarrow> int \<Rightarrow> int" where
  "navStep now PrevWeek v = prevWeek v"
| "navStep now NextWeek v = nextWeek now v"
| "navStep now TodayBtn v = todayBtn now"

text \<open>
  A session: the page is loaded at time \<open>t0\<close>, then the clicks happen, each with the
  clock reading at which it is handled. \<open>navRun\<close> gives the view end after the clicks
  and \<open>lastClock\<close> the last clock reading; \<open>clockOrdered\<close> says that the clock never
  runs backwards.
\<close>

fun navRun :: "(int \<times> nav) list \<Rightarrow> int \<Rightarrow> int" where
  "navRun [] v = v"
| "navRun ((now, ev) # evs) v = navRun evs (navStep now ev v)"

fun lastClock :: "(int \<times> nav) list \<Rightarrow> int \<Rightarrow> int" where
  "lastClock [] t = t"
| "lastClock ((now, ev) # evs) t = lastClock evs now"

fun clockOrdered :: "(int \<times> nav) list \<Rightarrow> int \<Rightarrow> bool" where
  "clockOrdered [] t = True"
| "clockOrdered ((now, ev) # evs) t = (t \<le> now \<and> clockOrdered evs now)"

section \<open>Export and import\<close>

text \<open>
  \<^verbatim>\<open>
  function exportData() {
    const data = {
      version: 1,
      exportedAt: new Date().toISOString(),
      habits: habits,
      completions: completions
    };
    const blob = new Blob([JSON.stringify(data, null, 2)], { type: 'application/json' });
    ...
  }
  \<close>
  \<^verbatim>\<open>JSON.stringify\<close> and \<^verbatim>\<open>JSON.parse\<close> belong to the host. They are the arguments
  \<open>stringify\<close> and \<open>parse\<close>; \<open>parse\<close> gives \<open>None\<close> where \<^verbatim>\<open>JSON.parse\<close> throws a
  \<^verbatim>\<open>SyntaxError\<close>.
\<close>

definition envelope :: "string \<Rightarrow> state \<Rightarrow> json" where
  "envelope exportedAt s =
     JObj [(''version'', JNum 1), (''exportedAt'', JStr exportedAt),
           (''habits'', JArr (habits s)), (''completions'', completions s)]"

definition exportData :: "(json \<Rightarrow> string) \<Rightarrow> string \<Rightarrow> state \<Rightarrow> string" where
  "exportData stringify exportedAt s = stringify (envelope exportedAt s)"

text \<open>
  \<^verbatim>\<open>
  async function importData(event) {
    const file = event.target.files[0];
    if (!file) return;
    try {
      const text = await file.text();
      const data = JSON.parse(text);
      if (!data.habits || !Array.isArray(data.habits)) {
        throw new Error('Invalid file format');
      }
      for (const habit of data.habits) {
        if (!habit.id || typeof habit.id !== 'string' ||
            !habit.name || typeof habit.name !== 'string') {
          throw new Error('Invalid habit data: each habit must have an id and name');
        }
      }
      if (data.completions && typeof data.completions !== 'object') {
        throw new Error('Invalid completions data');
      }
      showConfirm('Import data?', ..., async () => {
          habits = data.habits;
          completions = data.completions || {};
          ...
      });
    } catch (error) {
      console.error('Import failed:', error);
      showToast('Failed to import: Invalid file');
    }
    event.target.value = '';
  }
  \<close>
  Every exception ends in the \<^verbatim>\<open>catch\<close> block; \<open>import_error\<close> records which one it
  was. \<open>importData\<close> returns the outcome together with the state it leaves;
  \<open>importConfirmed\<close> is the body of the closure that is handed to \<^verbatim>\<open>showConfirm\<close>.
\<close>

datatype import_error =
    SyntaxError
  | NullDereference
  | InvalidFileFormat
  | InvalidHabitData
  | InvalidCompletionsData

datatype import_outcome =
    NoFile
  | ImportFailed import_error
  | ConfirmImport "json list" "json option"

definition nonEmptyString :: "json option \<Rightarrow> bool" where
  "nonEmptyString v = (truthyU v \<and> (case v of Some (JStr x) \<Rightarrow> True | _ \<Rightarrow> False))"

definition habitOk :: "json \<Rightarrow> fault + bool" where
  "habitOk habit =
     (case getField habit ''id'' of
        Inl e \<Rightarrow> Inl e
      | Inr i \<Rightarrow>
          if \<not> nonEmptyString i then Inr False
          else (case getField habit ''name'' of
                  Inl e \<Rightarrow> Inl e
                | Inr n \<Rightarrow> Inr (nonEmptyString n)))"

fun checkHabits :: "json list \<Rightarrow> import_error option" where
  "checkHabits [] = None"
| "checkHabits (habit # rest) =
     (case habitOk habit of
        Inl e \<Rightarrow> Some NullDereference
      | Inr False \<Rightarrow> Some InvalidHabitData
      | Inr True \<Rightarrow> checkHabits rest)"

definition typeofObject :: "json \<Rightarrow> bool" where
  "typeofObject v = (case v of JNull \<Rightarrow> True | JArr xs \<Rightarrow> True | JObj ps \<Rightarrow> True | _ \<Rightarrow> False)"

definition validateImport :: "json \<Rightarrow> import_outcome" where
  "validateImport data =
     (case getField data ''habits'' of
        Inl e \<Rightarrow> ImportFailed NullDereference
      | Inr (Some (JArr hs)) \<Rightarrow>
          (case checkHabits hs of
             Some err \<Rightarrow> ImportFailed err
           | None \<Rightarrow>
               (case getField data ''completions'' of
                  Inl e \<Rightarrow> ImportFailed NullDereference
                | Inr c \<Rightarrow>
                    if truthyU c \<and> \<not> typeofObject (the c)
                    then ImportFailed InvalidCompletionsData
                    else ConfirmImport hs c))
      | Inr other \<Rightarrow> ImportFailed InvalidFileFormat)"

definition importData :: "(string \<Rightarrow> json option) \<Rightarrow> string option \<Rightarrow> state
    \<Rightarrow> import_outcome \<times> state" where
  "importData parse file s =
     (case file of
        None \<Rightarrow> (NoFile, s)
      | Some text \<Rightarrow>
          (case parse text of
             None \<Rightarrow> (ImportFailed SyntaxError, s)
           | Some data \<Rightarrow> (validateImport data, s)))"

definition importConfirmed :: "json list \<Rightarrow> json option \<Rightarrow> state \<Rightarrow> state" where
  "importConfirmed dataHabits dataCompletions s =
     \<lparr>habits = dataHabits,
      completions = (if truthyU dataCompletions then the dataCompletions else JObj [])\<rparr>"

section \<open>The confirmation dialog\<close>

text \<open>
  Deleting a habit and replacing the data by an import go through a dialog:
  \<^verbatim>\<open>
  let confirmCallback = null;

  function showConfirm(title, message, onConfirm) {
    ...
    confirmCallback = onConfirm;
    const confirmBtn = document.getElementById('confirmOk');
    ...
    confirmBtn.onclick = () => {
      hideConfirm();
      if (confirmCallback) confirmCallback();
    };
    ...
  }

  function hideConfirm() {
    ...
    confirmCallback = null;
    ...
  }
  \<close>
  A page is the store together with the variable \<^verbatim>\<open>confirmCallback\<close>. The program hands
  two closures to \<^verbatim>\<open>showConfirm\<close>, one in \<^verbatim>\<open>deleteHabit\<close> and one in
  \<^verbatim>\<open>importData\<close>; they are the two constructors of \<open>callback\<close>, each with the values
  the closure has captured, and \<open>runCallback\<close> is their bodies. \<open>confirmOkClick\<close> is the
  handler of the OK button, statement by statement: it calls \<^verbatim>\<open>hideConfirm\<close> first and
  tests the variable afterwards. The Cancel button, the backdrop and the Escape key call
  \<^verbatim>\<open>hideConfirm\<close>.
\<close>

datatype callback =
    DeleteCallback string
  | ImportCallback "json list" "json option"

record page =
  store :: state
  confirmCallback :: "callback option"

definition showConfirm :: "callback \<Rightarrow> page \<Rightarrow> page" where
  "showConfirm onConfirm p = p\<lparr>confirmCallback := Some onConfirm\<rparr>"

definition hideConfirm :: "page \<Rightarrow> page" where
  "hideConfirm p = p\<lparr>confirmCallback := None\<rparr>"

fun runCallback :: "callback \<Rightarrow> state \<Rightarrow> fault + state" where
  "runCallback (DeleteCallback habitId) s = deleteHabitConfirmed habitId s"
| "runCallback (ImportCallback dataHabits dataCompletions) s =
     Inr (importConfirmed dataHabits dataCompletions s)"

definition confirmOkClick :: "page \<Rightarrow> fault + page" where
  "confirmOkClick p =
     (let p1 = hideConfirm p in
      case confirmCallback p1 of
        None \<Rightarrow> Inr p1
      | Some cb \<Rightarrow>
          (case runCallback cb (store p1) of
             Inl e \<Rightarrow> Inl e
           | Inr s' \<Rightarrow> Inr (p1\<lparr>store := s'\<rparr>)))"

text \<open>
  \<^verbatim>\<open>deleteHabit\<close> and \<^verbatim>\<open>importData\<close> on a page: each leaves the store as it is and,
  when it gets that far, opens the dialog with its closure.
\<close>

definition deleteHabitDialog :: "string \<Rightarrow> page \<Rightarrow> fault + page" where
  "deleteHabitDialog habitId p =
     (case deleteHabit habitId (store p) of
        Inl e \<Rightarrow> Inl e
      | Inr opened \<Rightarrow> Inr (if opened then showConfirm (DeleteCallback habitId) p else p))"

definition importDataDialog :: "(string \<Rightarrow> json option) \<Rightarrow> string option \<Rightarrow> page \<Rightarrow> page" where
  "importDataDialog parse file p =
     (case importData parse file (store p) of
        (ConfirmImport dataHabits dataCompletions, s) \<Rightarrow>
          showConfirm (ImportCallback dataHabits dataCompletions) (p\<lparr>store := s\<rparr>)
      | (outcome, s) \<Rightarrow> p\<lparr>store := s\<rparr>)"

section \<open>Property names of any shape\<close>

text \<open>
  \<^verbatim>\<open>completions[habitId]\<close> and \<^verbatim>\<open>completions[habitId][dateStr]\<close> are property
  accesses on plain objects, and two things that a list of own properties does not show
  matter for names that are not generated ids or date keys.

  A read looks among the own properties first and then among the members that every
  plain object inherits from \<^verbatim>\<open>Object.prototype\<close>; \<open>inheritedMember\<close> lists their
  names. All of them are functions, except \<^verbatim>\<open>__proto__\<close>, which reads as the prototype
  object itself; so an inherited member is truthy and is not the string \<^verbatim>\<open>done\<close>.

  A new property whose name is an array index (a decimal numeral without leading zero,
  below \<open>4294967295\<close>) is enumerated among the array indices, in ascending order and
  before every other name; any other new property comes last. \<open>arrayIndex\<close> reads such
  a name and \<open>setOwn\<close> is the assignment \<^verbatim>\<open>o[k] = v\<close> on the own properties of
  \<^verbatim>\<open>o\<close>.
\<close>

definition inheritedMember :: "string \<Rightarrow> bool" where
  "inheritedMember k =
     (k \<in> set [''__proto__'', ''constructor'', ''hasOwnProperty'', ''isPrototypeOf'',
                ''propertyIsEnumerable'', ''toLocaleString'', ''toString'', ''valueOf'',
                ''__defineGetter__'', ''__defineSetter__'', ''__lookupGetter__'',
                ''__lookupSetter__''])"

definition arrayIndex :: "string \<Rightarrow> nat option" where
  "arrayIndex k =
     (if k = [] \<or> (hd k = CHR ''0'' \<and> tl k \<noteq> []) then None
      else (case digitsVal k 0 of
              None \<Rightarrow> None
            | Some n \<Rightarrow> if n < 4294967295 then Some n else None))"

fun insertIndexed :: "nat \<Rightarrow> string \<Rightarrow> json \<Rightarrow> (string \<times> json) list \<Rightarrow> (string \<times> json) list" where
  "insertIndexed n k v [] = [(k, v)]"
| "insertIndexed n k v (p # ps) =
     (case arrayIndex (fst p) of
        None \<Rightarrow> (k, v) # p # ps
      | Some m \<Rightarrow> if m < n then p # insertIndexed n k v ps else (k, v) # p # ps)"

definition setOwn :: "string \<Rightarrow> json \<Rightarrow> (string \<times> json) list \<Rightarrow> (string \<times> json) list" where
  "setOwn k v ps =
     (if map_of ps k \<noteq> None then AList.update k v ps
      else (case arrayIndex k of
              None \<Rightarrow> ps @ [(k, v)]
            | Some n \<Rightarrow> insertIndexed n k v ps))"

text \<open>
  The if-chain of \<^verbatim>\<open>toggleCompletion\<close> on a per-date record, for a date key of any
  shape. When the record has no own property of that name but the name is an inherited
  member, \<^verbatim>\<open>currentState\<close> is that member: the chain takes its last branch, and
  \<^verbatim>\<open>delete\<close> finds no own property to remove.
\<close>

definition toggleCellAnyKey :: "string \<Rightarrow> (string \<times> json) list \<Rightarrow> (string \<times> json) list" where
  "toggleCellAnyKey dateStr ds =
     (case map_of ds dateStr of
        Some currentState \<Rightarrow> toggleCell dateStr ds
      | None \<Rightarrow> if inheritedMember dateStr then ds else setOwn dateStr (JStr ''done'') ds)"

text \<open>
  \<^verbatim>\<open>toggleCompletion\<close> for a habit id of any shape. When the completion map has no own
  property \<^verbatim>\<open>habitId\<close> but the name is an inherited member, \<^verbatim>\<open>!completions[habitId]\<close>
  is false and no record is created; \<^verbatim>\<open>completions[habitId][dateStr]\<close> is then a
  property of the inherited member. For a date key that names a calendar day the member
  has no such property, so the function writes \<^verbatim>\<open>done\<close> there and returns: the
  result is \<open>WroteInherited\<close> with the store, which is as it was. For any other date
  key the model stops. The inherited members are no part of the store; the store
  describes the page as long as none of them has been written, and \<open>Toggled\<close> is the
  result of a toggle that has written none.
\<close>

datatype toggled =
    Toggled state
  | WroteInherited state

definition toggleCompletionAnyId :: "string \<Rightarrow> string \<Rightarrow> state \<Rightarrow> fault + toggled" where
  "toggleCompletionAnyId habitId dateStr s =
     (case completions s of
        JNull \<Rightarrow> Inl TypeError
      | JObj cs \<Rightarrow>
          (case map_of cs habitId of
             None \<Rightarrow>
               if inheritedMember habitId
               then (if parseDate dateStr \<noteq> None then Inr (WroteInherited s) else Inl Unsupported)
               else Inr (Toggled (s\<lparr>completions :=
                          JObj (setOwn habitId (JObj (toggleCellAnyKey dateStr [])) cs)\<rparr>))
           | Some e \<Rightarrow>
               if \<not> truthy e
               then Inr (Toggled (s\<lparr>completions :=
                          JObj (AList.update habitId (JObj (toggleCellAnyKey dateStr [])) cs)\<rparr>))
               else (case e of
                       JObj ds \<Rightarrow>
                         Inr (Toggled (s\<lparr>completions :=
                               JObj (AList.update habitId (JObj (toggleCellAnyKey dateStr ds)) cs)\<rparr>))
                     | _ \<Rightarrow> Inl Unsupported))
      | _ \<Rightarrow> Inl Unsupported)"

text \<open>
  \<^verbatim>\<open>getHabitState\<close> for a habit id of any shape. An id without an own entry that is not
  an inherited member reads as \<^verbatim>\<open>undefined\<close>, and \<^verbatim>\<open>?.\<close> stops there. An id without
  an own entry that is an inherited member reads as that member, which has no property
  named like a calendar day, so the answer is \<^verbatim>\<open>null\<close> for such a date key. Where the
  answer would be another property of an inherited member, or an inherited member
  itself, the model stops.
\<close>

definition getHabitStateAnyId :: "string \<Rightarrow> string \<Rightarrow> state \<Rightarrow> fault + json" where
  "getHabitStateAnyId habitId dateStr s =
     (case completions s of
        JNull \<Rightarrow> Inl TypeError
      | JObj cs \<Rightarrow>
          (case map_of cs habitId of
             None \<Rightarrow>
               if inheritedMember habitId \<and> parseDate dateStr = None then Inl Unsupported
               else Inr JNull
           | Some JNull \<Rightarrow> Inr JNull
           | Some (JObj ds) \<Rightarrow>
               (case map_of ds dateStr of
                  None \<Rightarrow> if inheritedMember dateStr then Inl Unsupported else Inr JNull
                | Some v \<Rightarrow> Inr (if truthy v then v else JNull))
           | Some _ \<Rightarrow> Inl Unsupported)
      | _ \<Rightarrow> Inl Unsupported)"

section \<open>Notions used to state the properties\<close>

text \<open>
  The shape of an import document, read off the document itself: the array under
  \<^verbatim>\<open>habits\<close> if there is one, the value under \<^verbatim>\<open>completions\<close> if there is one, and
  what it is for a habit entry to have a non-empty string \<^verbatim>\<open>id\<close> and a non-empty string
  \<^verbatim>\<open>name\<close>.
\<close>

definition habitsArray :: "json \<Rightarrow> json list option" where
  "habitsArray data =
     (case data of
        JObj ps \<Rightarrow> (case map_of ps ''habits'' of Some (JArr hs) \<Rightarrow> Some hs | _ \<Rightarrow> None)
      | _ \<Rightarrow> None)"

definition completionsField :: "json \<Rightarrow> json option" where
  "completionsField data = (case data of JObj ps \<Rightarrow> map_of ps ''completions'' | _ \<Rightarrow> None)"

definition wellFormedHabit :: "json \<Rightarrow> bool" where
  "wellFormedHabit h =
     (case h of
        JObj ps \<Rightarrow>
          (case (map_of ps ''id'', map_of ps ''name'') of
             (Some (JStr i), Some (JStr n)) \<Rightarrow> i \<noteq> [] \<and> n \<noteq> []
           | _ \<Rightarrow> False)
      | _ \<Rightarrow> False)"

definition isMapping :: "json \<Rightarrow> bool" where
  "isMapping v = (case v of JObj ps \<Rightarrow> True | _ \<Rightarrow> False)"

definition isArray :: "json \<Rightarrow> bool" where
  "isArray v = (case v of JArr xs \<Rightarrow> True | _ \<Rightarrow> False)"

text \<open>
  The invariant of the completion map: it is an object, each of its entries is an
  object, and every date key of an entry holds \<^verbatim>\<open>done\<close> or \<^verbatim>\<open>skipped\<close>.
  \<open>storedEntryOk\<close> is what storage may hold for a habit before loading: such a record,
  or the old format, an array of date strings.
\<close>

definition cellOk :: "json \<Rightarrow> bool" where
  "cellOk v = (v = JStr ''done'' \<or> v = JStr ''skipped'')"

definition recordOk :: "json \<Rightarrow> bool" where
  "recordOk e = (case e of JObj ds \<Rightarrow> list_all (\<lambda>p. cellOk (snd p)) ds | _ \<Rightarrow> False)"

definition completionsOk :: "json \<Rightarrow> bool" where
  "completionsOk c = (case c of JObj cs \<Rightarrow> list_all (\<lambda>p. recordOk (snd p)) cs | _ \<Rightarrow> False)"

definition isDateString :: "json \<Rightarrow> bool" where
  "isDateString v = (case v of JStr x \<Rightarrow> True | _ \<Rightarrow> False)"

definition storedEntryOk :: "json \<Rightarrow> bool" where
  "storedEntryOk e = (case e of JArr ds \<Rightarrow> list_all isDateString ds | _ \<Rightarrow> recordOk e)"

text \<open>
  Two hosts for the examples: a parser under which one given text reads as one given
  document and no other text is JSON, and a serialiser that writes one given text for
  one given document and the empty text, which is not JSON, for every other document.
\<close>

definition parsesTo :: "string \<Rightarrow> json \<Rightarrow> string \<Rightarrow> json option" where
  "parsesTo text doc t = (if t = text then Some doc else None)"

definition writesAs :: "string \<Rightarrow> json \<Rightarrow> json \<Rightarrow> string" where
  "writesAs text doc d = (if d = doc then text else [])"

text \<open>
  A habit without its \<^verbatim>\<open>order\<close> field, to compare habits before and after a
  renumbering; and the list in which the element at one position has been taken out and
  put back at another, which is what moving a row means.
\<close>

definition withoutOrder :: "json \<Rightarrow> json" where
  "withoutOrder h = (case h of JObj ps \<Rightarrow> JObj (AList.delete ''order'' ps) | _ \<Rightarrow> h)"

definition moveRow :: "nat \<Rightarrow> nat \<Rightarrow> 'a list \<Rightarrow> 'a list" where
  "moveRow fromIndex toIndex xs =
     (let rest = take fromIndex xs @ drop (Suc fromIndex) xs
      in take toIndex rest @ [xs ! fromIndex] @ drop toIndex rest)"

text \<open>
  The stored array is in the order of its \<^verbatim>\<open>order\<close> fields and every habit is an
  object. The array starts empty, \<^verbatim>\<open>addHabit\<close> appends a habit whose order is above
  all others, and \<^verbatim>\<open>reorderHabits\<close> numbers the array from 0, so the page keeps its
  array in this form.
\<close>

definition storedInOrder :: "json list \<Rightarrow> bool" where
  "storedInOrder hs =
     (list_all isMapping hs \<and> (case ordersOf hs of Inl e \<Rightarrow> False | Inr ns \<Rightarrow> sorted ns))"

text \<open>The number of days of a year.\<close>

definition yearLength :: "nat \<Rightarrow> nat" where
  "yearLength y = (if isLeap y then 366 else 365)"

text \<open>
  The day number of a date key, and the day numbers of the dates of a record whose state
  is \<^verbatim>\<open>done\<close>.
\<close>

definition dayNo :: "string \<Rightarrow> int" where
  "dayNo k = the (parseDate k)"

definition doneDays :: "(string \<times> json) list \<Rightarrow> int list" where
  "doneDays habitData = map dayNo (doneDates habitData)"

text \<open>
  The current streak counted on day numbers in descending order: the number of leading
  elements each one day before its predecessor, the first element included.
\<close>

fun runBack :: "int list \<Rightarrow> nat" where
  "runBack [] = 0"
| "runBack [a] = 1"
| "runBack (a # b # rest) = (if a - b = 1 then Suc (runBack (b # rest)) else 1)"

text \<open>
  The longest streak in the words of the specification: sort the done-dates ascending and
  scan adjacent pairs; a gap of exactly one day extends the running length, any other gap
  resets it to 1; the result is the largest running length seen, at least 1 when there is
  a done-date and 0 when there is none.
\<close>

fun runScan :: "int list \<Rightarrow> nat \<Rightarrow> nat \<Rightarrow> nat" where
  "runScan (a # b # rest) run best =
     (if b - a = 1 then runScan (b # rest) (run + 1) (max best (run + 1))
      else runScan (b # rest) 1 best)"
| "runScan days run best = best"

definition longestSpec :: "int list \<Rightarrow> nat" where
  "longestSpec days = (if days = [] then 0 else runScan (sort days) 1 1)"

text \<open>
  The state of the scan of the longest streak after it has seen the days \<open>P\<close>: the running
  streak of length \<open>t\<close> ends at \<open>x\<close>, the largest day seen, and cannot be extended
  backwards, and \<open>l\<close> is the length of the longest run of consecutive days in \<open>P\<close>.
\<close>

definition scanInv :: "int set \<Rightarrow> int \<Rightarrow> nat \<Rightarrow> nat \<Rightarrow> bool" where
  "scanInv P x t l =
     (x \<in> P \<and> (\<forall>p \<in> P. p \<le> x) \<and> 1 \<le> t \<and> (\<forall>i < t. x - int i \<in> P) \<and> x - int t \<notin> P
      \<and> t \<le> l \<and> (\<exists>a. \<forall>i < l. a + int i \<in> P)
      \<and> (\<forall>a k. (\<forall>i < k. a + int i \<in> P) \<longrightarrow> k \<le> l))"

section \<open>Properties of toggling\<close>

lemma update_fresh: "map_of ps k = None \<Longrightarrow> AList.update k v ps = ps @ [(k, v)]"
  by (induction ps) (auto split: if_splits)

lemma toggleCell_untracked:
  "\<not> truthyU (map_of ds d) \<Longrightarrow> map_of (toggleCell d ds) d = Some (JStr ''done'')"
  by (simp add: toggleCell_def AList.update_conv')

lemma toggleCell_done:
  "map_of ds d = Some (JStr ''done'') \<Longrightarrow> map_of (toggleCell d ds) d = Some (JStr ''skipped'')"
  by (simp add: toggleCell_def AList.update_conv')

lemma toggleCell_other:
  "truthyU (map_of ds d) \<Longrightarrow> map_of ds d \<noteq> Some (JStr ''done'') \<Longrightarrow> map_of (toggleCell d ds) d = None"
  by (simp add: toggleCell_def AList.delete_conv')

lemma toggleCompletion_obj:
  "completions s = JObj cs \<Longrightarrow> entryOf cs h = JObj ds \<Longrightarrow>
   toggleCompletion h d s = Inr (s\<lparr>completions := JObj (AList.update h (JObj (toggleCell d ds)) cs)\<rparr>)"
  by (simp add: toggleCompletion_def)

lemma getHabitState_obj:
  "completions s = JObj cs \<Longrightarrow> map_of cs h = Some (JObj ds) \<Longrightarrow>
   getHabitState h d s = Inr (case map_of ds d of None \<Rightarrow> JNull | Some v \<Rightarrow> if truthy v then v else JNull)"
  by (simp add: getHabitState_def split: option.splits)

text \<open>A successful read fixes the shape of the state.\<close>

lemma getHabitState_InrD:
  assumes "getHabitState h d s = Inr v"
  obtains cs ds where "completions s = JObj cs" "entryOf cs h = JObj ds"
    "v = (if truthyU (map_of ds d) then the (map_of ds d) else JNull)"
  using assms
  by (auto simp: getHabitState_def entryOf_def split: json.splits option.splits if_splits)

lemma toggle_step:
  assumes "completions s = JObj cs" "entryOf cs h = JObj ds"
  shows "\<exists>s'. toggleCompletion h d s = Inr s' \<and> completions s' = JObj (AList.update h (JObj (toggleCell d ds)) cs)
     \<and> entryOf (AList.update h (JObj (toggleCell d ds)) cs) h = JObj (toggleCell d ds)
     \<and> getHabitState h d s' = Inr (if truthyU (map_of (toggleCell d ds) d) then the (map_of (toggleCell d ds) d) else JNull)"
  using assms
  by (auto simp: toggleCompletion_obj entryOf_def AList.update_conv' getHabitState_def split: option.splits)


text \<open>
  Claim C1. Toggling a cell is a strict three-cycle on the state that \<open>getHabitState\<close>
  reads: an untracked cell (\<^verbatim>\<open>null\<close>) becomes \<^verbatim>\<open>done\<close>, a \<^verbatim>\<open>done\<close> cell becomes
  \<^verbatim>\<open>skipped\<close>, and a \<^verbatim>\<open>skipped\<close> cell becomes untracked again, its date key being
  removed from the habit's record. Hence three toggles of an untracked cell show
  \<^verbatim>\<open>done\<close>, \<^verbatim>\<open>skipped\<close>, untracked, in this order. A habit without a completion entry
  gets one, holding the toggled date as \<^verbatim>\<open>done\<close>.
\<close>

theorem toggleCompletion_three_cycle:
  "(getHabitState h d s = Inr JNull \<longrightarrow>
      (\<exists>s'. toggleCompletion h d s = Inr s' \<and> getHabitState h d s' = Inr (JStr ''done'')))
   \<and> (getHabitState h d s = Inr (JStr ''done'') \<longrightarrow>
      (\<exists>s'. toggleCompletion h d s = Inr s' \<and> getHabitState h d s' = Inr (JStr ''skipped'')))
   \<and> (getHabitState h d s = Inr (JStr ''skipped'') \<longrightarrow>
      (\<exists>s' cs' ds'. toggleCompletion h d s = Inr s' \<and> getHabitState h d s' = Inr JNull
          \<and> completions s' = JObj cs' \<and> map_of cs' h = Some (JObj ds') \<and> d \<notin> fst ` set ds'))
   \<and> (getHabitState h d s = Inr JNull \<longrightarrow>
      (\<exists>s1 s2 s3. toggleCompletion h d s = Inr s1 \<and> toggleCompletion h d s1 = Inr s2
          \<and> toggleCompletion h d s2 = Inr s3
          \<and> getHabitState h d s1 = Inr (JStr ''done'')
          \<and> getHabitState h d s2 = Inr (JStr ''skipped'')
          \<and> getHabitState h d s3 = Inr JNull))
   \<and> (\<forall>cs. completions s = JObj cs \<and> map_of cs h = None \<longrightarrow>
      (\<exists>s'. toggleCompletion h d s = Inr s'
          \<and> completions s' = JObj (cs @ [(h, JObj [(d, JStr ''done'')])])))"
proof -
  have step1: "\<exists>s'. toggleCompletion h d s = Inr s' \<and> getHabitState h d s' = Inr (JStr ''done'')"
    if "getHabitState h d s = Inr JNull" for s
  proof -
    from that obtain cs ds where a: "completions s = JObj cs" "entryOf cs h = JObj ds"
      and v: "JNull = (if truthyU (map_of ds d) then the (map_of ds d) else JNull)"
      by (rule getHabitState_InrD)
    from v have "\<not> truthyU (map_of ds d)"
      by (cases "map_of ds d") (auto split: if_splits)
    then have "map_of (toggleCell d ds) d = Some (JStr ''done'')"
      by (rule toggleCell_untracked)
    with toggle_step[OF a, of d] show ?thesis by auto
  qed
  have step2: "\<exists>s'. toggleCompletion h d s = Inr s' \<and> getHabitState h d s' = Inr (JStr ''skipped'')"
    if "getHabitState h d s = Inr (JStr ''done'')" for s
  proof -
    from that obtain cs ds where a: "completions s = JObj cs" "entryOf cs h = JObj ds"
      and v: "JStr ''done'' = (if truthyU (map_of ds d) then the (map_of ds d) else JNull)"
      by (rule getHabitState_InrD)
    from v have "map_of ds d = Some (JStr ''done'')"
      by (cases "map_of ds d") (auto split: if_splits)
    then have "map_of (toggleCell d ds) d = Some (JStr ''skipped'')"
      by (rule toggleCell_done)
    with toggle_step[OF a, of d] show ?thesis by auto
  qed
  have step3: "\<exists>s' cs' ds'. toggleCompletion h d s = Inr s' \<and> getHabitState h d s' = Inr JNull
          \<and> completions s' = JObj cs' \<and> map_of cs' h = Some (JObj ds') \<and> d \<notin> fst ` set ds'"
    if "getHabitState h d s = Inr (JStr ''skipped'')" for s
  proof -
    from that obtain cs ds where a: "completions s = JObj cs" "entryOf cs h = JObj ds"
      and v: "JStr ''skipped'' = (if truthyU (map_of ds d) then the (map_of ds d) else JNull)"
      by (rule getHabitState_InrD)
    from v have m: "map_of ds d = Some (JStr ''skipped'')"
      by (cases "map_of ds d") (auto split: if_splits)
    then have n: "map_of (toggleCell d ds) d = None"
      by (intro toggleCell_other) simp_all
    then have "d \<notin> fst ` set (toggleCell d ds)"
      by (simp add: map_of_eq_None_iff)
    moreover have "map_of (AList.update h (JObj (toggleCell d ds)) cs) h = Some (JObj (toggleCell d ds))"
      by (simp add: AList.update_conv')
    ultimately show ?thesis
      using toggle_step[OF a, of d] n by auto
  qed
  have cycle: "\<exists>s1 s2 s3. toggleCompletion h d s = Inr s1 \<and> toggleCompletion h d s1 = Inr s2
          \<and> toggleCompletion h d s2 = Inr s3
          \<and> getHabitState h d s1 = Inr (JStr ''done'')
          \<and> getHabitState h d s2 = Inr (JStr ''skipped'')
          \<and> getHabitState h d s3 = Inr JNull"
    if "getHabitState h d s = Inr JNull"
  proof -
    from step1[OF that] obtain s1 where 1: "toggleCompletion h d s = Inr s1"
      "getHabitState h d s1 = Inr (JStr ''done'')" by blast
    from step2[OF 1(2)] obtain s2 where 2: "toggleCompletion h d s1 = Inr s2"
      "getHabitState h d s2 = Inr (JStr ''skipped'')" by blast
    from step3[OF 2(2)] obtain s3 where 3: "toggleCompletion h d s2 = Inr s3"
      "getHabitState h d s3 = Inr JNull" by blast
    from 1 2 3 show ?thesis by blast
  qed
  have fresh: "\<exists>s'. toggleCompletion h d s = Inr s'
          \<and> completions s' = JObj (cs @ [(h, JObj [(d, JStr ''done'')])])"
    if "completions s = JObj cs \<and> map_of cs h = None" for cs
  proof -
    from that have e: "entryOf cs h = JObj []" by (simp add: entryOf_def)
    have "toggleCell d [] = [(d, JStr ''done'')]" by (simp add: toggleCell_def)
    with that e show ?thesis
      by (simp add: toggleCompletion_obj update_fresh)
  qed
  from step1 step2 step3 cycle fresh show ?thesis by blast
qed


text \<open>The three transitions and the creation of an entry, on concrete states.\<close>

theorem toggleCompletion_three_cycle_witness:
  "getHabitState ''h1'' ''2024-01-01'' \<lparr>habits = [], completions = JObj [(''h1'', JObj [])]\<rparr> = Inr JNull
   \<and> (\<exists>s1 s2 s3.
        toggleCompletion ''h1'' ''2024-01-01'' \<lparr>habits = [], completions = JObj [(''h1'', JObj [])]\<rparr> = Inr s1
      \<and> toggleCompletion ''h1'' ''2024-01-01'' s1 = Inr s2
      \<and> toggleCompletion ''h1'' ''2024-01-01'' s2 = Inr s3
      \<and> getHabitState ''h1'' ''2024-01-01'' s1 = Inr (JStr ''done'')
      \<and> getHabitState ''h1'' ''2024-01-01'' s2 = Inr (JStr ''skipped'')
      \<and> getHabitState ''h1'' ''2024-01-01'' s3 = Inr JNull)
   \<and> getHabitState ''h1'' ''2024-01-02''
        \<lparr>habits = [], completions = JObj [(''h1'', JObj [(''2024-01-02'', JStr ''done'')])]\<rparr> = Inr (JStr ''done'')
   \<and> (\<exists>s'. toggleCompletion ''h1'' ''2024-01-02''
        \<lparr>habits = [], completions = JObj [(''h1'', JObj [(''2024-01-02'', JStr ''done'')])]\<rparr> = Inr s'
        \<and> getHabitState ''h1'' ''2024-01-02'' s' = Inr (JStr ''skipped''))
   \<and> getHabitState ''h1'' ''2024-01-03''
        \<lparr>habits = [], completions = JObj [(''h1'', JObj [(''2024-01-03'', JStr ''skipped'')])]\<rparr> = Inr (JStr ''skipped'')
   \<and> (\<exists>s'. toggleCompletion ''h1'' ''2024-01-03''
        \<lparr>habits = [], completions = JObj [(''h1'', JObj [(''2024-01-03'', JStr ''skipped'')])]\<rparr> = Inr s'
        \<and> getHabitState ''h1'' ''2024-01-03'' s' = Inr JNull)
   \<and> (\<exists>s'. toggleCompletion ''h2'' ''2024-01-01'' \<lparr>habits = [], completions = JObj []\<rparr> = Inr s'
        \<and> completions s' = JObj ([] @ [(''h2'', JObj [(''2024-01-01'', JStr ''done'')])]))"
proof -
  have a: "getHabitState ''h1'' ''2024-01-01'' \<lparr>habits = [], completions = JObj [(''h1'', JObj [])]\<rparr> = Inr JNull"
    by (simp add: getHabitState_def)
  have b: "getHabitState ''h1'' ''2024-01-02''
        \<lparr>habits = [], completions = JObj [(''h1'', JObj [(''2024-01-02'', JStr ''done'')])]\<rparr> = Inr (JStr ''done'')"
    by (simp add: getHabitState_def)
  have c: "getHabitState ''h1'' ''2024-01-03''
        \<lparr>habits = [], completions = JObj [(''h1'', JObj [(''2024-01-03'', JStr ''skipped'')])]\<rparr> = Inr (JStr ''skipped'')"
    by (simp add: getHabitState_def)
  have e: "completions \<lparr>habits = [], completions = JObj []\<rparr> = JObj [] \<and> map_of ([]::(string \<times> json) list) ''h2'' = None"
    by simp
  note t1 = toggleCompletion_three_cycle[of "''h1''" "''2024-01-01''" "\<lparr>habits = [], completions = JObj [(''h1'', JObj [])]\<rparr>"]
  note t2 = toggleCompletion_three_cycle[of "''h1''" "''2024-01-02''" "\<lparr>habits = [], completions = JObj [(''h1'', JObj [(''2024-01-02'', JStr ''done'')])]\<rparr>"]
  note t3 = toggleCompletion_three_cycle[of "''h1''" "''2024-01-03''" "\<lparr>habits = [], completions = JObj [(''h1'', JObj [(''2024-01-03'', JStr ''skipped'')])]\<rparr>"]
  note t4 = toggleCompletion_three_cycle[of "''h2''" "''2024-01-01''" "\<lparr>habits = [], completions = JObj []\<rparr>"]
  from t1 a have r1: "\<exists>s1 s2 s3.
        toggleCompletion ''h1'' ''2024-01-01'' \<lparr>habits = [], completions = JObj [(''h1'', JObj [])]\<rparr> = Inr s1
      \<and> toggleCompletion ''h1'' ''2024-01-01'' s1 = Inr s2
      \<and> toggleCompletion ''h1'' ''2024-01-01'' s2 = Inr s3
      \<and> getHabitState ''h1'' ''2024-01-01'' s1 = Inr (JStr ''done'')
      \<and> getHabitState ''h1'' ''2024-01-01'' s2 = Inr (JStr ''skipped'')
      \<and> getHabitState ''h1'' ''2024-01-01'' s3 = Inr JNull" by blast
  from t2 b have r2: "\<exists>s'. toggleCompletion ''h1'' ''2024-01-02''
        \<lparr>habits = [], completions = JObj [(''h1'', JObj [(''2024-01-02'', JStr ''done'')])]\<rparr> = Inr s'
        \<and> getHabitState ''h1'' ''2024-01-02'' s' = Inr (JStr ''skipped'')" by blast
  from t3 c have r3: "\<exists>s'. toggleCompletion ''h1'' ''2024-01-03''
        \<lparr>habits = [], completions = JObj [(''h1'', JObj [(''2024-01-03'', JStr ''skipped'')])]\<rparr> = Inr s'
        \<and> getHabitState ''h1'' ''2024-01-03'' s' = Inr JNull" by blast
  from t4 e have r4: "\<exists>s'. toggleCompletion ''h2'' ''2024-01-01'' \<lparr>habits = [], completions = JObj []\<rparr> = Inr s'
        \<and> completions s' = JObj ([] @ [(''h2'', JObj [(''2024-01-01'', JStr ''done'')])])" by blast
  from a b c r1 r2 r3 r4 show ?thesis by blast
qed

section \<open>Unknown habit ids\<close>



lemma setOwn_plain: "arrayIndex k = None \<Longrightarrow> setOwn k v ps = AList.update k v ps"
  by (cases "map_of ps k") (simp_all add: setOwn_def update_fresh)

text \<open>
  On a habit id and a date key that are neither inherited members nor array indices,
  which is the case of every generated id and every date key, the functions for names of
  any shape are \<open>toggleCompletion\<close> and \<open>getHabitState\<close>.
\<close>

lemma toggleCellAnyKey_plain:
  "\<not> inheritedMember d \<Longrightarrow> arrayIndex d = None \<Longrightarrow> toggleCellAnyKey d ds = toggleCell d ds"
  by (cases "map_of ds d") (simp_all add: toggleCellAnyKey_def toggleCell_def setOwn_plain)

lemma toggleCompletionAnyId_plain:
  assumes "\<not> inheritedMember h" "arrayIndex h = None" "\<not> inheritedMember d" "arrayIndex d = None"
  shows "toggleCompletionAnyId h d s
           = (case toggleCompletion h d s of Inl e \<Rightarrow> Inl e | Inr s' \<Rightarrow> Inr (Toggled s'))"
  using assms
  by (auto simp: toggleCompletionAnyId_def toggleCompletion_def entryOf_def toggleCellAnyKey_plain
      setOwn_plain split: json.splits option.splits)

lemma getHabitStateAnyId_plain:
  assumes "\<not> inheritedMember h" "\<not> inheritedMember d"
  shows "getHabitStateAnyId h d s = getHabitState h d s"
  using assms
  by (auto simp: getHabitStateAnyId_def getHabitState_def split: json.splits option.splits)




section \<open>Adding a habit\<close>

text \<open>
  Claim C8. Adding a habit is the submission of the add-habit form, whose handler is the
  only caller of \<open>addHabit\<close>. For every input whose trimmed form is empty the submission
  is a silent no-op: it raises no error and returns the store as it was, habit list and
  completion map unchanged. Every other submission is the call of \<open>addHabit\<close>, which,
  whenever it succeeds, appends a habit named by the trimmed input.
\<close>

theorem addHabit_guard_in_form:
  "(trim inputValue = [] \<longrightarrow> addHabitFormSubmit newId createdAt inputValue s = Inr s)
   \<and> (trim inputValue \<noteq> [] \<longrightarrow>
        addHabitFormSubmit newId createdAt inputValue s = addHabit newId createdAt inputValue s)
   \<and> (\<forall>s'. addHabit newId createdAt name s = Inr s' \<longrightarrow>
        (\<exists>n. habits s' = habits s @ [JObj [(''id'', JStr newId), (''name'', JStr (trim name)),
                            (''order'', JNum n), (''createdAt'', JStr createdAt)]]))"
  by (auto simp: addHabitFormSubmit_def addHabit_def Let_def split: sum.splits if_splits)

text \<open>
  A submission of three spaces, one of a no-break space between a tab and a space, and
  one of \<^verbatim>\<open>" Run "\<close>, on a store with one habit.
\<close>

theorem addHabit_guard_in_form_witness:
  "trim ''   '' = []
   \<and> addHabitFormSubmit ''k2'' ''t'' ''   ''
        \<lparr>habits = [JObj [(''id'', JStr ''k1''), (''name'', JStr ''Read''), (''order'', JNum 1)]],
         completions = JObj [(''k1'', JObj [])]\<rparr>
        = Inr \<lparr>habits = [JObj [(''id'', JStr ''k1''), (''name'', JStr ''Read''), (''order'', JNum 1)]],
               completions = JObj [(''k1'', JObj [])]\<rparr>
   \<and> trim [CHR 0x09, CHR 0xA0, CHR 0x20] = []
   \<and> addHabitFormSubmit ''k2'' ''t'' [CHR 0x09, CHR 0xA0, CHR 0x20]
        \<lparr>habits = [JObj [(''id'', JStr ''k1''), (''name'', JStr ''Read''), (''order'', JNum 1)]],
         completions = JObj [(''k1'', JObj [])]\<rparr>
        = Inr \<lparr>habits = [JObj [(''id'', JStr ''k1''), (''name'', JStr ''Read''), (''order'', JNum 1)]],
               completions = JObj [(''k1'', JObj [])]\<rparr>
   \<and> trim '' Run '' \<noteq> []
   \<and> addHabitFormSubmit ''k2'' ''t'' '' Run ''
        \<lparr>habits = [JObj [(''id'', JStr ''k1''), (''name'', JStr ''Read''), (''order'', JNum 1)]],
         completions = JObj [(''k1'', JObj [])]\<rparr>
        = Inr \<lparr>habits = [JObj [(''id'', JStr ''k1''), (''name'', JStr ''Read''), (''order'', JNum 1)],
                         JObj [(''id'', JStr ''k2''), (''name'', JStr ''Run''), (''order'', JNum 2),
                               (''createdAt'', JStr ''t'')]],
               completions = JObj [(''k1'', JObj []), (''k2'', JObj [])]\<rparr>"
proof -
  let ?s = "\<lparr>habits = [JObj [(''id'', JStr ''k1''), (''name'', JStr ''Read''), (''order'', JNum 1)]],
         completions = JObj [(''k1'', JObj [])]\<rparr>"
  have a: "trim ''   '' = []" by (simp add: trim_def isSpace_def)
  have a': "trim [CHR 0x09, CHR 0xA0, CHR 0x20] = []" by (simp add: trim_def isSpace_def)
  have b: "trim '' Run '' \<noteq> []" by (simp add: trim_def isSpace_def)
  have c: "addHabit ''k2'' ''t'' '' Run '' ?s
        = Inr \<lparr>habits = [JObj [(''id'', JStr ''k1''), (''name'', JStr ''Read''), (''order'', JNum 1)],
                         JObj [(''id'', JStr ''k2''), (''name'', JStr ''Run''), (''order'', JNum 2),
                               (''createdAt'', JStr ''t'')]],
               completions = JObj [(''k1'', JObj []), (''k2'', JObj [])]\<rparr>"
    by (simp add: trim_def isSpace_def addHabit_def orderOr0_def)
  from a a' b c
    addHabit_guard_in_form[of "''   ''" "''k2''" "''t''" ?s "'' Run ''"]
    addHabit_guard_in_form[of "[CHR 0x09, CHR 0xA0, CHR 0x20]" "''k2''" "''t''" ?s "'' Run ''"]
    addHabit_guard_in_form[of "'' Run ''" "''k2''" "''t''" ?s "'' Run ''"]
  show ?thesis by simp
qed

section \<open>The view window stays in the past\<close>

lemma startOfDay_le: "startOfDay t \<le> t"
  by (simp add: startOfDay_def msPerDay_def)

lemma dayOf_mono: "a \<le> b \<Longrightarrow> dayOf a \<le> dayOf b"
  by (simp add: dayOf_def msPerDay_def zdiv_mono1)

lemma dayOf_startOfDay: "dayOf (startOfDay t) = dayOf t"
proof -
  have "startOfDay t = (t div msPerDay) * msPerDay"
    by (simp add: startOfDay_def minus_mod_eq_div_mult)
  then show ?thesis
    by (simp add: dayOf_def msPerDay_def)
qed

lemma dayOf_plus14: "dayOf (v + 14 * msPerDay) = dayOf v + 14"
  by (simp add: dayOf_def msPerDay_def)

lemma nextWeek_le: "nextWeek now v \<le> startOfDay now"
  by (simp add: nextWeek_def Let_def)

lemma navStep_le: "v \<le> t \<Longrightarrow> t \<le> now \<Longrightarrow> navStep now ev v \<le> now"
proof (cases ev)
  case PrevWeek
  assume "v \<le> t" "t \<le> now"
  with PrevWeek show ?thesis by (simp add: prevWeek_def msPerDay_def)
next
  case NextWeek
  have "nextWeek now v \<le> now"
    using nextWeek_le[of now v] startOfDay_le[of now] by linarith
  with NextWeek show ?thesis by simp
next
  case TodayBtn
  then show ?thesis by (simp add: todayBtn_def)
qed

lemma navRun_le: "clockOrdered evs t \<Longrightarrow> v \<le> t \<Longrightarrow> navRun evs v \<le> lastClock evs t"
proof (induction evs arbitrary: v t)
  case Nil
  then show ?case by simp
next
  case (Cons e evs)
  obtain now ev where e: "e = (now, ev)" by (cases e)
  from Cons.prems e have o: "t \<le> now" "clockOrdered evs now" by simp_all
  from navStep_le[OF Cons.prems(2) o(1)] have "navStep now ev v \<le> now" .
  from Cons.IH[OF o(2) this] e show ?case by simp
qed

lemma nextWeek_same_day:
  assumes "dayOf v = dayOf now"
  shows "nextWeek now v = startOfDay now"
proof -
  have "dayOf (startOfDay now) < dayOf (v + 14 * msPerDay)"
    using assms by (simp add: dayOf_startOfDay dayOf_plus14)
  then have "\<not> v + 14 * msPerDay \<le> startOfDay now"
    using dayOf_mono[of "v + 14 * msPerDay" "startOfDay now"] by linarith
  then show ?thesis by (simp add: nextWeek_def Let_def)
qed

lemma forward_same_day:
  "\<forall>e \<in> set evs. snd e = NextWeek \<and> dayOf (fst e) = D \<Longrightarrow> dayOf v = D \<Longrightarrow> dayOf (navRun evs v) = D"
proof (induction evs arbitrary: v)
  case Nil
  then show ?case by simp
next
  case (Cons e evs)
  obtain now ev where e: "e = (now, ev)" by (cases e)
  with Cons.prems have ev: "ev = NextWeek" "dayOf now = D" by simp_all
  with Cons.prems have "nextWeek now v = startOfDay now"
    by (intro nextWeek_same_day) simp
  then have "dayOf (navStep now ev v) = D"
    using ev by (simp add: dayOf_startOfDay)
  with Cons e show ?case by simp
qed

text \<open>
  Claim C6. The view window never ends after the current date. In a session whose clock
  never runs backwards, after any number of clicks on the three navigation buttons the
  view end is not later than the clock reading of the last click, so its calendar day is
  not after today. \<open>nextWeek\<close> adds 14 days and takes today's midnight instead when the
  sum would pass it. Starting at today, any number of forward clicks made on that same
  day leave the view end on today.
\<close>

theorem viewEnd_never_after_today:
  "(clockOrdered evs t0 \<longrightarrow>
      navRun evs (initialViewEnd t0) \<le> lastClock evs t0
      \<and> dayOf (navRun evs (initialViewEnd t0)) \<le> dayOf (lastClock evs t0))
   \<and> nextWeek now v = (if v + 14 * msPerDay \<le> startOfDay now then v + 14 * msPerDay else startOfDay now)
   \<and> dayOf (nextWeek now v) \<le> dayOf now
   \<and> ((\<forall>e \<in> set clicks. snd e = NextWeek \<and> dayOf (fst e) = dayOf t0) \<longrightarrow>
        dayOf (navRun clicks (initialViewEnd t0)) = dayOf t0)"
proof -
  have a: "navRun evs (initialViewEnd t0) \<le> lastClock evs t0" if "clockOrdered evs t0"
    using navRun_le[OF that, of t0] by (simp add: initialViewEnd_def)
  have b: "nextWeek now v = (if v + 14 * msPerDay \<le> startOfDay now then v + 14 * msPerDay else startOfDay now)"
    by (simp add: nextWeek_def Let_def)
  have c: "dayOf (nextWeek now v) \<le> dayOf now"
    using dayOf_mono[OF nextWeek_le[of now v]] by (simp add: dayOf_startOfDay)
  have d: "dayOf (navRun clicks (initialViewEnd t0)) = dayOf t0"
    if "\<forall>e \<in> set clicks. snd e = NextWeek \<and> dayOf (fst e) = dayOf t0"
    using forward_same_day[OF that] by (simp add: initialViewEnd_def)
  from a b c d dayOf_mono show ?thesis by blast
qed

text \<open>Paging back twice and forward three times on 2024-01-04, the page loaded at 09:00.\<close>

theorem viewEnd_never_after_today_witness:
  "clockOrdered [(1704358800000, PrevWeek), (1704358860000, PrevWeek), (1704358920000, NextWeek),
                 (1704358980000, NextWeek), (1704359040000, NextWeek)] 1704358800000
   \<and> navRun [(1704358800000, PrevWeek), (1704358860000, PrevWeek), (1704358920000, NextWeek),
             (1704358980000, NextWeek), (1704359040000, NextWeek)] (initialViewEnd 1704358800000)
       \<le> 1704359040000
   \<and> dayOf 1704358920000 = dayOf 1704358800000
   \<and> dayOf 1704358980000 = dayOf 1704358800000
   \<and> dayOf (navRun [(1704358920000, NextWeek), (1704358980000, NextWeek)] (initialViewEnd 1704358800000))
       = dayOf 1704358800000"
proof -
  have o: "clockOrdered [(1704358800000, PrevWeek), (1704358860000, PrevWeek), (1704358920000, NextWeek),
                 (1704358980000, NextWeek), (1704359040000, NextWeek)] 1704358800000"
    by simp
  have s: "\<forall>e \<in> set [(1704358920000, NextWeek), (1704358980000, NextWeek)].
         snd e = NextWeek \<and> dayOf (fst e) = dayOf 1704358800000"
    by (simp add: dayOf_def msPerDay_def)
  from o s
    viewEnd_never_after_today[of "[(1704358800000, PrevWeek), (1704358860000, PrevWeek), (1704358920000, NextWeek),
                 (1704358980000, NextWeek), (1704359040000, NextWeek)]" 1704358800000 0 0
                 "[(1704358920000, NextWeek), (1704358980000, NextWeek)]"]
  show ?thesis by simp
qed

section \<open>Import validation\<close>

lemma habitOk_wellFormed: "habitOk h = Inr True \<longleftrightarrow> wellFormedHabit h"
  by (cases h) (auto simp: habitOk_def wellFormedHabit_def nonEmptyString_def
      split: option.splits json.splits)

lemma habitOk_cases: "habitOk h = Inr True \<or> habitOk h = Inr False \<or> habitOk h = Inl TypeError"
  by (cases h) (auto simp: habitOk_def)

lemma checkHabits_None: "checkHabits hs = None \<longleftrightarrow> (\<forall>h \<in> set hs. wellFormedHabit h)"
proof (induction hs)
  case Nil
  then show ?case by simp
next
  case (Cons h hs)
  from habitOk_cases[of h] habitOk_wellFormed[of h] Cons show ?case
    by (auto split: sum.splits bool.splits)
qed

lemma getField_habits: "getField data ''habits'' = Inr (Some (JArr hs)) \<longleftrightarrow> habitsArray data = Some hs"
  by (cases data) (auto simp: habitsArray_def split: option.splits json.splits)

lemma validateImport_no_array:
  "habitsArray data = None \<Longrightarrow> \<exists>err. validateImport data = ImportFailed err"
  by (cases data)
     (auto simp: validateImport_def habitsArray_def split: option.splits json.splits)

lemma validateImport_array:
  assumes "habitsArray data = Some hs"
  shows "validateImport data =
     (case checkHabits hs of
        Some err \<Rightarrow> ImportFailed err
      | None \<Rightarrow>
          if truthyU (completionsField data) \<and> \<not> typeofObject (the (completionsField data))
          then ImportFailed InvalidCompletionsData
          else ConfirmImport hs (completionsField data))"
proof -
  from assms obtain ps where d: "data = JObj ps" "map_of ps ''habits'' = Some (JArr hs)"
    by (auto simp: habitsArray_def split: json.splits option.splits)
  then show ?thesis
    by (simp add: validateImport_def completionsField_def split: option.splits)
qed


lemma importData_state: "snd (importData parse file s) = s"
  by (simp add: importData_def split: option.splits)

text \<open>
  Claim C5, as the code has it. For a file whose \<^verbatim>\<open>completions\<close> value is not an array,
  the import fails exactly when the text is not JSON, or the document has no array under
  \<^verbatim>\<open>habits\<close>, or some habit entry lacks a non-empty string \<^verbatim>\<open>id\<close> or a non-empty
  string \<^verbatim>\<open>name\<close>, or \<^verbatim>\<open>completions\<close> holds a truthy value that is not a mapping (a
  non-empty string, a non-zero number or \<^verbatim>\<open>true\<close>). A falsy \<^verbatim>\<open>completions\<close> value
  (\<^verbatim>\<open>null\<close>, \<^verbatim>\<open>false\<close>, \<^verbatim>\<open>0\<close>, the empty string) counts as absent. When the import
  does not fail it opens the confirmation dialog with the document's habits and
  completions. In every case, whatever the file, \<open>importData\<close> leaves the habit list and
  the completion map as they were.
\<close>

theorem importData_fails_exactly:
  assumes "\<forall>data c. parse text = Some data \<and> completionsField data = Some c \<longrightarrow> \<not> isArray c"
  shows "((\<exists>err. fst (importData parse (Some text) s) = ImportFailed err) \<longleftrightarrow>
            (parse text = None
             \<or> (\<exists>data. parse text = Some data \<and>
                  (habitsArray data = None
                   \<or> (\<exists>hs. habitsArray data = Some hs \<and> (\<exists>h \<in> set hs. \<not> wellFormedHabit h))
                   \<or> (\<exists>c. completionsField data = Some c \<and> truthy c \<and> \<not> isMapping c)))))
     \<and> ((\<exists>err. fst (importData parse (Some text) s) = ImportFailed err)
          \<or> (\<exists>data hs. parse text = Some data \<and> habitsArray data = Some hs
                \<and> fst (importData parse (Some text) s) = ConfirmImport hs (completionsField data)))
     \<and> snd (importData parse file s) = s"
proof (cases "parse text")
  case None
  then show ?thesis by (simp add: importData_def split: option.splits)
next
  case (Some data)
  have i: "fst (importData parse (Some text) s) = validateImport data"
    using Some by (simp add: importData_def)
  show ?thesis
  proof (cases "habitsArray data")
    case None
    from validateImport_no_array[OF None] i Some None show ?thesis
      by (auto simp: importData_state)
  next
    case (Some hs)
    note hs = this
    show ?thesis
    proof (cases "checkHabits hs")
      case (Some err)
      then have "\<exists>h \<in> set hs. \<not> wellFormedHabit h"
        using checkHabits_None[of hs] by auto
      moreover have "validateImport data = ImportFailed err"
        using Some by (simp add: validateImport_array[OF hs])
      ultimately show ?thesis
        using i hs \<open>parse text = Some data\<close> by (auto simp: importData_state)
    next
      case None
      then have wf: "\<forall>h \<in> set hs. wellFormedHabit h"
        by (simp add: checkHabits_None)
      have v: "validateImport data =
          (if truthyU (completionsField data) \<and> \<not> typeofObject (the (completionsField data))
           then ImportFailed InvalidCompletionsData
           else ConfirmImport hs (completionsField data))"
        using None by (simp add: validateImport_array[OF hs])
      have c: "(truthyU (completionsField data) \<and> \<not> typeofObject (the (completionsField data)))
           \<longleftrightarrow> (\<exists>c. completionsField data = Some c \<and> truthy c \<and> \<not> isMapping c)"
      proof (cases "completionsField data")
        case None
        then show ?thesis by simp
      next
        case (Some c)
        with assms \<open>parse text = Some data\<close> have "\<not> isArray c" by blast
        with Some show ?thesis
          by (cases c) (auto simp: typeofObject_def isMapping_def isArray_def)
      qed
      show ?thesis
        using i hs wf v c \<open>parse text = Some data\<close>
        by (auto simp: importData_state)
    qed
  qed
qed


text \<open>
  A file whose \<^verbatim>\<open>completions\<close> is \<^verbatim>\<open>false\<close>, present and not a mapping, is accepted;
  so is one whose \<^verbatim>\<open>completions\<close> is an array.
\<close>

theorem importData_falsy_completions_counterexample:
  "importData (parsesTo ''{habits:[],completions:false}''
                 (JObj [(''habits'', JArr []), (''completions'', JBool False)]))
              (Some ''{habits:[],completions:false}'') \<lparr>habits = [], completions = JObj []\<rparr>
     = (ConfirmImport [] (Some (JBool False)), \<lparr>habits = [], completions = JObj []\<rparr>)
   \<and> importData (parsesTo ''{habits:[],completions:[]}''
                 (JObj [(''habits'', JArr []), (''completions'', JArr [])]))
              (Some ''{habits:[],completions:[]}'') \<lparr>habits = [], completions = JObj []\<rparr>
     = (ConfirmImport [] (Some (JArr [])), \<lparr>habits = [], completions = JObj []\<rparr>)"
  by (simp add: importData_def parsesTo_def validateImport_def typeofObject_def)

text \<open>A file whose only habit has no name is rejected and nothing changes.\<close>

theorem importData_fails_exactly_witness:
  "parsesTo ''{habits:[{id:a}]}'' (JObj [(''habits'', JArr [JObj [(''id'', JStr ''a'')]])])
        ''{habits:[{id:a}]}'' = Some (JObj [(''habits'', JArr [JObj [(''id'', JStr ''a'')]])])
   \<and> completionsField (JObj [(''habits'', JArr [JObj [(''id'', JStr ''a'')]])]) = None
   \<and> (\<exists>err. fst (importData
        (parsesTo ''{habits:[{id:a}]}'' (JObj [(''habits'', JArr [JObj [(''id'', JStr ''a'')]])]))
        (Some ''{habits:[{id:a}]}'') \<lparr>habits = [], completions = JObj []\<rparr>) = ImportFailed err)
   \<and> snd (importData
        (parsesTo ''{habits:[{id:a}]}'' (JObj [(''habits'', JArr [JObj [(''id'', JStr ''a'')]])]))
        (Some ''{habits:[{id:a}]}'') \<lparr>habits = [], completions = JObj []\<rparr>)
       = \<lparr>habits = [], completions = JObj []\<rparr>"
proof -
  let ?doc = "JObj [(''habits'', JArr [JObj [(''id'', JStr ''a'')]])]"
  let ?p = "parsesTo ''{habits:[{id:a}]}'' ?doc"
  have h: "\<forall>data c. ?p ''{habits:[{id:a}]}'' = Some data \<and> completionsField data = Some c \<longrightarrow> \<not> isArray c"
    by (simp add: parsesTo_def completionsField_def)
  have r: "?p ''{habits:[{id:a}]}'' = Some ?doc" by (simp add: parsesTo_def)
  have a: "habitsArray ?doc = Some [JObj [(''id'', JStr ''a'')]]" by (simp add: habitsArray_def)
  have w: "\<not> wellFormedHabit (JObj [(''id'', JStr ''a'')])" by (simp add: wellFormedHabit_def)
  note t = importData_fails_exactly[of "?p" "''{habits:[{id:a}]}''"
      "\<lparr>habits = [], completions = JObj []\<rparr>" "Some ''{habits:[{id:a}]}''"]
  have c: "completionsField ?doc = None" by (simp add: completionsField_def)
  from t[OF h] r a w c show ?thesis by auto
qed

section \<open>Export followed by import\<close>

text \<open>
  The export of a store passes the validation of the import. When the host's parser
  reads the written document back, every habit of the list has a non-empty string id and
  a non-empty string name, and the completions are a mapping, then \<open>importData\<close> opens
  the dialog for a habit list and a completion map equal to the exported ones, whatever
  the store at the time of the import.
\<close>

lemma exportData_accepted:
  assumes "parse (stringify (envelope exportedAt s)) = Some (envelope exportedAt s)"
    and "\<forall>h \<in> set (habits s). wellFormedHabit h"
    and "isMapping (completions s)"
  shows "importData parse (Some (exportData stringify exportedAt s)) s'
           = (ConfirmImport (habits s) (Some (completions s)), s')"
proof -
  have a: "habitsArray (envelope exportedAt s) = Some (habits s)"
    by (simp add: habitsArray_def envelope_def)
  have c: "completionsField (envelope exportedAt s) = Some (completions s)"
    by (simp add: completionsField_def envelope_def)
  from assms(3) have t: "truthy (completions s)" "typeofObject (completions s)"
    by (cases "completions s"; simp add: isMapping_def typeofObject_def)+
  have k: "checkHabits (habits s) = None"
    using assms(2) by (simp add: checkHabits_None)
  have "validateImport (envelope exportedAt s) = ConfirmImport (habits s) (Some (completions s))"
    using k c t by (simp add: validateImport_array[OF a])
  then show ?thesis
    using assms(1) by (simp add: importData_def exportData_def)
qed

text \<open>
  The OK button of the dialog never runs the closure it was opened with: its handler
  calls \<^verbatim>\<open>hideConfirm\<close>, which sets \<^verbatim>\<open>confirmCallback\<close> to \<^verbatim>\<open>null\<close>, before it tests
  \<^verbatim>\<open>confirmCallback\<close>. A click on OK therefore does what a click on Cancel does, and
  neither a deletion nor an import ever changes the store.
\<close>

lemma confirmOkClick_hides: "confirmOkClick p = Inr (hideConfirm p)"
  by (simp add: confirmOkClick_def hideConfirm_def)

lemma store_hideConfirm: "store (hideConfirm p) = store p"
  by (simp add: hideConfirm_def)

lemma store_importDataDialog: "store (importDataDialog parse chosen p) = store p"
proof -
  obtain outcome s where i: "importData parse chosen (store p) = (outcome, s)"
    by (cases "importData parse chosen (store p)")
  with importData_state[of parse chosen "store p"] have "s = store p" by simp
  with i show ?thesis
    by (cases outcome) (simp_all add: importDataDialog_def showConfirm_def)
qed

lemma store_deleteHabitDialog: "deleteHabitDialog h p = Inr p1 \<Longrightarrow> store p1 = store p"
  by (auto simp: deleteHabitDialog_def showConfirm_def split: sum.splits if_splits)

text \<open>
  Claim C9 says that exporting and then importing the produced text rebuilds the exported
  habit list and completion map. A store with one habit and one completed day is
  exported, by a serialiser that writes \<^verbatim>\<open>backup\<close> for the document of this export
  and nothing for any other. The text, unchanged, is imported on a page whose store is
  empty, as on a new installation. The import accepts the file and opens the dialog with
  a closure that holds the exported habits and completions, and that closure, if it were
  run, would install exactly the exported store. The click on OK closes the dialog and
  leaves the store empty.
\<close>

theorem import_confirmed_installs_nothing:
  "importDataDialog
      (parsesTo ''backup'' (envelope ''2024-01-04T09:00:00.000Z''
        \<lparr>habits = [JObj [(''id'', JStr ''a''), (''name'', JStr ''Run''), (''order'', JNum 1),
                         (''createdAt'', JStr ''2024-01-01T00:00:00.000Z'')]],
         completions = JObj [(''a'', JObj [(''2024-01-03'', JStr ''done'')])]\<rparr>))
      (Some (exportData
        (writesAs ''backup'' (envelope ''2024-01-04T09:00:00.000Z''
          \<lparr>habits = [JObj [(''id'', JStr ''a''), (''name'', JStr ''Run''), (''order'', JNum 1),
                           (''createdAt'', JStr ''2024-01-01T00:00:00.000Z'')]],
           completions = JObj [(''a'', JObj [(''2024-01-03'', JStr ''done'')])]\<rparr>))
        ''2024-01-04T09:00:00.000Z''
        \<lparr>habits = [JObj [(''id'', JStr ''a''), (''name'', JStr ''Run''), (''order'', JNum 1),
                         (''createdAt'', JStr ''2024-01-01T00:00:00.000Z'')]],
         completions = JObj [(''a'', JObj [(''2024-01-03'', JStr ''done'')])]\<rparr>))
      \<lparr>store = \<lparr>habits = [], completions = JObj []\<rparr>, confirmCallback = None\<rparr>
     = \<lparr>store = \<lparr>habits = [], completions = JObj []\<rparr>,
        confirmCallback = Some (ImportCallback
          [JObj [(''id'', JStr ''a''), (''name'', JStr ''Run''), (''order'', JNum 1),
                 (''createdAt'', JStr ''2024-01-01T00:00:00.000Z'')]]
          (Some (JObj [(''a'', JObj [(''2024-01-03'', JStr ''done'')])])))\<rparr>
   \<and> runCallback (ImportCallback
          [JObj [(''id'', JStr ''a''), (''name'', JStr ''Run''), (''order'', JNum 1),
                 (''createdAt'', JStr ''2024-01-01T00:00:00.000Z'')]]
          (Some (JObj [(''a'', JObj [(''2024-01-03'', JStr ''done'')])])))
        \<lparr>habits = [], completions = JObj []\<rparr>
     = Inr \<lparr>habits = [JObj [(''id'', JStr ''a''), (''name'', JStr ''Run''), (''order'', JNum 1),
                            (''createdAt'', JStr ''2024-01-01T00:00:00.000Z'')]],
            completions = JObj [(''a'', JObj [(''2024-01-03'', JStr ''done'')])]\<rparr>
   \<and> confirmOkClick
        \<lparr>store = \<lparr>habits = [], completions = JObj []\<rparr>,
         confirmCallback = Some (ImportCallback
          [JObj [(''id'', JStr ''a''), (''name'', JStr ''Run''), (''order'', JNum 1),
                 (''createdAt'', JStr ''2024-01-01T00:00:00.000Z'')]]
          (Some (JObj [(''a'', JObj [(''2024-01-03'', JStr ''done'')])])))\<rparr>
     = Inr \<lparr>store = \<lparr>habits = [], completions = JObj []\<rparr>, confirmCallback = None\<rparr>"
  by (simp add: importDataDialog_def importData_def parsesTo_def exportData_def writesAs_def
      envelope_def validateImport_def habitOk_def nonEmptyString_def typeofObject_def
      showConfirm_def importConfirmed_def confirmOkClick_def hideConfirm_def)

section \<open>The invariant of the completion map\<close>

lemma list_all_update:
  "list_all P al \<Longrightarrow> P (k, v) \<Longrightarrow> list_all P (AList.update k v al)"
  by (induction al) auto

lemma list_all_delete:
  "list_all P al \<Longrightarrow> list_all P (AList.delete k al)"
  by (simp add: AList.delete_eq list_all_iff)

lemma map_of_list_all:
  "list_all P al \<Longrightarrow> map_of al k = Some v \<Longrightarrow> P (k, v)"
  by (auto simp: list_all_iff dest: map_of_SomeD)

lemma toggleCell_cellOk:
  "list_all (\<lambda>p. cellOk (snd p)) ds \<Longrightarrow> list_all (\<lambda>p. cellOk (snd p)) (toggleCell d ds)"
  by (simp add: toggleCell_def Let_def list_all_update list_all_delete cellOk_def)

lemma entryOf_recordOk:
  assumes "list_all (\<lambda>p. recordOk (snd p)) cs"
  obtains ds where "entryOf cs h = JObj ds" "list_all (\<lambda>p. cellOk (snd p)) ds"
proof (cases "map_of cs h")
  case None
  then have "entryOf cs h = JObj []" by (simp add: entryOf_def)
  then show ?thesis using that by simp
next
  case (Some e)
  with assms have "recordOk e"
    using map_of_list_all[of "\<lambda>p. recordOk (snd p)" cs h e] by simp
  then obtain ds where e: "e = JObj ds" "list_all (\<lambda>p. cellOk (snd p)) ds"
    by (cases e) (auto simp: recordOk_def)
  with Some have "entryOf cs h = JObj ds" by (simp add: entryOf_def)
  with e that show ?thesis by blast
qed

lemma toggleCompletion_inv:
  assumes "completionsOk (completions s)"
  shows "\<exists>s'. toggleCompletion h d s = Inr s' \<and> completionsOk (completions s')"
proof -
  from assms obtain cs where cs: "completions s = JObj cs" "list_all (\<lambda>p. recordOk (snd p)) cs"
    by (cases "completions s") (auto simp: completionsOk_def)
  from cs(2) obtain ds where ds: "entryOf cs h = JObj ds" "list_all (\<lambda>p. cellOk (snd p)) ds"
    by (rule entryOf_recordOk)
  have "recordOk (JObj (toggleCell d ds))"
    using ds(2) by (simp add: recordOk_def toggleCell_cellOk)
  then have "completionsOk (JObj (AList.update h (JObj (toggleCell d ds)) cs))"
    using cs(2) by (simp add: completionsOk_def list_all_update)
  then show ?thesis
    using cs(1) ds(1) by (simp add: toggleCompletion_obj)
qed

lemma addHabit_inv:
  assumes "completionsOk (completions s)"
    and "maxOrderOf (habits s) 0 = Inr m \<and> m < 9007199254740992"
  shows "\<exists>s'. addHabit newId createdAt name s = Inr s' \<and> completionsOk (completions s')"
proof -
  from assms obtain cs where cs: "completions s = JObj cs" "list_all (\<lambda>p. recordOk (snd p)) cs"
    by (cases "completions s") (auto simp: completionsOk_def)
  have "completionsOk (JObj (AList.update newId (JObj []) cs))"
    using cs(2) by (simp add: completionsOk_def list_all_update recordOk_def)
  then show ?thesis
    using cs(1) assms(2) by (simp add: addHabit_def)
qed



lemma migrateDates_ok:
  "list_all isDateString oldDates \<Longrightarrow> list_all (\<lambda>p. cellOk (snd p)) entry \<Longrightarrow>
   \<exists>entry'. migrateDates oldDates entry = Inr entry' \<and> list_all (\<lambda>p. cellOk (snd p)) entry'"
proof (induction oldDates arbitrary: entry)
  case Nil
  then show ?case by simp
next
  case (Cons v oldDates)
  from Cons.prems(1) obtain date where v: "v = JStr date"
    by (cases v) (auto simp: isDateString_def)
  have "list_all (\<lambda>p. cellOk (snd p)) (AList.update date (JStr ''done'') entry)"
    using Cons.prems(2) by (simp add: list_all_update cellOk_def)
  from Cons.IH[OF _ this] Cons.prems(1) v show ?case by simp
qed

lemma migrateLoop_ok:
  assumes "distinct (map fst cs)"
    and "\<forall>k e. map_of cs k = Some e \<longrightarrow> storedEntryOk e \<and> (k \<notin> set keys \<longrightarrow> recordOk e)"
  shows "\<exists>cs' flag. migrateLoop keys cs needsMigration = Inr (cs', flag) \<and> distinct (map fst cs')
           \<and> (\<forall>k e. map_of cs' k = Some e \<longrightarrow> recordOk e)"
  using assms
proof (induction keys arbitrary: cs needsMigration)
  case Nil
  then show ?case by simp
next
  case (Cons habitId keys)
  show ?case
  proof (cases "\<exists>oldDates. map_of cs habitId = Some (JArr oldDates)")
    case True
    then obtain oldDates where o: "map_of cs habitId = Some (JArr oldDates)" by blast
    with Cons.prems(2) have "storedEntryOk (JArr oldDates)" by blast
    then have "list_all isDateString oldDates" by (simp add: storedEntryOk_def)
    from migrateDates_ok[OF this, of "[]"] obtain entry where
      e: "migrateDates oldDates [] = Inr entry" "list_all (\<lambda>p. cellOk (snd p)) entry" by auto
    let ?cs = "AList.update habitId (JObj entry) cs"
    have d: "distinct (map fst ?cs)"
      using Cons.prems(1) by (rule AList.distinct_update)
    have r: "recordOk (JObj entry)" using e(2) by (simp add: recordOk_def)
    then have s: "storedEntryOk (JObj entry)" by (simp add: storedEntryOk_def)
    have i: "\<forall>k e. map_of ?cs k = Some e \<longrightarrow> storedEntryOk e \<and> (k \<notin> set keys \<longrightarrow> recordOk e)"
      using Cons.prems(2) r s by (auto simp: AList.update_conv')
    from Cons.IH[OF d i, of True] o e(1) show ?thesis by simp
  next
    case False
    have i: "\<forall>k e. map_of cs k = Some e \<longrightarrow> storedEntryOk e \<and> (k \<notin> set keys \<longrightarrow> recordOk e)"
    proof (intro allI impI)
      fix k e assume m: "map_of cs k = Some e"
      with Cons.prems(2) have a: "storedEntryOk e" "k \<notin> set (habitId # keys) \<longrightarrow> recordOk e" by blast+
      have "recordOk e" if "k = habitId"
      proof -
        from that m False have "\<not> isArray e" by (cases e) (auto simp: isArray_def)
        with a(1) show ?thesis by (cases e) (auto simp: storedEntryOk_def isArray_def)
      qed
      with a show "storedEntryOk e \<and> (k \<notin> set keys \<longrightarrow> recordOk e)" by auto
    qed
    have "migrateLoop (habitId # keys) cs needsMigration = migrateLoop keys cs needsMigration"
      using False by (auto split: option.splits json.splits)
    with Cons.IH[OF Cons.prems(1) i, of needsMigration] show ?thesis by simp
  qed
qed

lemma loadData_inv:
  assumes "distinct (map fst cs)" and "list_all (\<lambda>p. storedEntryOk (snd p)) cs"
  shows "\<exists>s' flag. loadData storedHabits (Some (JObj cs)) = Inr (s', flag) \<and> completionsOk (completions s')"
proof -
  have "\<forall>k e. map_of cs k = Some e \<longrightarrow> storedEntryOk e \<and> (k \<notin> set (map fst cs) \<longrightarrow> recordOk e)"
    using assms(2) map_of_list_all[of "\<lambda>p. storedEntryOk (snd p)" cs]
    by (force dest: map_of_SomeD)
  from migrateLoop_ok[OF assms(1) this, of False] obtain cs' flag where
    m: "migrateLoop (map fst cs) cs False = Inr (cs', flag)" "distinct (map fst cs')"
       "\<forall>k e. map_of cs' k = Some e \<longrightarrow> recordOk e" by blast
  have "list_all (\<lambda>p. recordOk (snd p)) cs'"
    using m(2,3) by (auto simp: list_all_iff)
  then show ?thesis
    using m(1) by (simp add: loadData_def completionsOk_def)
qed


text \<open>
  Claim C7. The invariant of the completion map (every entry an object whose date keys
  hold \<^verbatim>\<open>done\<close> or \<^verbatim>\<open>skipped\<close>) is kept by every operation that can write the map.
  A toggle keeps it, and so does adding a habit. It holds after loading stored
  completions whose entries are such records or old arrays of date strings, which the
  migration turns into records of \<^verbatim>\<open>done\<close>. A deletion and an import go through the
  confirmation dialog: after the click on OK the store is the store from before the
  dialog was opened, so the invariant is kept there too. Clearing a cell, the toggle of a
  \<^verbatim>\<open>skipped\<close> cell, removes its date key from the record.
\<close>

theorem completions_invariant_preserved:
  "(completionsOk (completions s) \<longrightarrow>
      (\<exists>s'. toggleCompletion h d s = Inr s' \<and> completionsOk (completions s')))
   \<and> (completionsOk (completions s)
        \<and> (\<exists>m. maxOrderOf (habits s) 0 = Inr m \<and> m < 9007199254740992) \<longrightarrow>
      (\<exists>s'. addHabit newId createdAt name s = Inr s' \<and> completionsOk (completions s')))
   \<and> (completionsOk (completions (store p)) \<longrightarrow>
      (\<forall>p1. deleteHabitDialog h p = Inr p1 \<longrightarrow>
         (\<exists>p2. confirmOkClick p1 = Inr p2 \<and> store p2 = store p
            \<and> completionsOk (completions (store p2)))))
   \<and> (distinct (map fst cs) \<and> list_all (\<lambda>p. storedEntryOk (snd p)) cs \<longrightarrow>
      (\<exists>s' flag. loadData storedHabits (Some (JObj cs)) = Inr (s', flag)
          \<and> completionsOk (completions s')))
   \<and> (completionsOk (completions (store p)) \<longrightarrow>
      (\<exists>p2. confirmOkClick (importDataDialog parse file p) = Inr p2 \<and> store p2 = store p
          \<and> completionsOk (completions (store p2))))
   \<and> (map_of ds d = Some (JStr ''skipped'') \<longrightarrow> d \<notin> fst ` set (toggleCell d ds))"
proof -
  have del: "\<exists>p2. confirmOkClick p1 = Inr p2 \<and> store p2 = store p
            \<and> completionsOk (completions (store p2))"
    if "completionsOk (completions (store p))" "deleteHabitDialog h p = Inr p1" for p1
    using that store_deleteHabitDialog[OF that(2)]
    by (simp add: confirmOkClick_hides store_hideConfirm)
  have imp: "\<exists>p2. confirmOkClick (importDataDialog parse file p) = Inr p2 \<and> store p2 = store p
          \<and> completionsOk (completions (store p2))"
    if "completionsOk (completions (store p))"
    using that by (simp add: confirmOkClick_hides store_hideConfirm store_importDataDialog)
  have c: "d \<notin> fst ` set (toggleCell d ds)" if "map_of ds d = Some (JStr ''skipped'')"
  proof -
    from that have "map_of (toggleCell d ds) d = None"
      by (intro toggleCell_other) simp_all
    then show ?thesis by (simp add: map_of_eq_None_iff)
  qed
  from toggleCompletion_inv[of s h d] addHabit_inv[of s _ newId createdAt name]
    loadData_inv[of cs storedHabits] del imp c
  show ?thesis by blast
qed

text \<open>
  One habit with a skipped day: the day is toggled, a second habit is added, the habit is
  deleted and the deletion confirmed, and a file whose completions hold the cell value
  \<^verbatim>\<open>banana\<close> is imported and the import confirmed; a stored map with one old array
  entry is loaded.
\<close>

theorem completions_invariant_preserved_witness:
  "completionsOk (completions \<lparr>habits = [JObj [(''id'', JStr ''a''), (''name'', JStr ''Run''), (''order'', JNum 1)]],
                               completions = JObj [(''a'', JObj [(''2024-01-01'', JStr ''skipped'')])]\<rparr>)
   \<and> (\<exists>s'. toggleCompletion ''a'' ''2024-01-01''
          \<lparr>habits = [JObj [(''id'', JStr ''a''), (''name'', JStr ''Run''), (''order'', JNum 1)]],
           completions = JObj [(''a'', JObj [(''2024-01-01'', JStr ''skipped'')])]\<rparr> = Inr s'
        \<and> completionsOk (completions s'))
   \<and> maxOrderOf [JObj [(''id'', JStr ''a''), (''name'', JStr ''Run''), (''order'', JNum 1)]] 0 = Inr 1
   \<and> (\<exists>s'. addHabit ''b'' ''2024-01-04T09:00:00.000Z'' ''Read''
          \<lparr>habits = [JObj [(''id'', JStr ''a''), (''name'', JStr ''Run''), (''order'', JNum 1)]],
           completions = JObj [(''a'', JObj [(''2024-01-01'', JStr ''skipped'')])]\<rparr> = Inr s'
        \<and> completionsOk (completions s'))
   \<and> deleteHabitDialog ''a''
        \<lparr>store = \<lparr>habits = [JObj [(''id'', JStr ''a''), (''name'', JStr ''Run''), (''order'', JNum 1)]],
                   completions = JObj [(''a'', JObj [(''2024-01-01'', JStr ''skipped'')])]\<rparr>,
         confirmCallback = None\<rparr>
       = Inr \<lparr>store = \<lparr>habits = [JObj [(''id'', JStr ''a''), (''name'', JStr ''Run''), (''order'', JNum 1)]],
                        completions = JObj [(''a'', JObj [(''2024-01-01'', JStr ''skipped'')])]\<rparr>,
              confirmCallback = Some (DeleteCallback ''a'')\<rparr>
   \<and> (\<exists>p2. confirmOkClick
          \<lparr>store = \<lparr>habits = [JObj [(''id'', JStr ''a''), (''name'', JStr ''Run''), (''order'', JNum 1)]],
                     completions = JObj [(''a'', JObj [(''2024-01-01'', JStr ''skipped'')])]\<rparr>,
           confirmCallback = Some (DeleteCallback ''a'')\<rparr> = Inr p2
        \<and> store p2 = \<lparr>habits = [JObj [(''id'', JStr ''a''), (''name'', JStr ''Run''), (''order'', JNum 1)]],
                       completions = JObj [(''a'', JObj [(''2024-01-01'', JStr ''skipped'')])]\<rparr>
        \<and> completionsOk (completions (store p2)))
   \<and> distinct (map fst [(''a'', JArr [JStr ''2024-01-01'', JStr ''2024-01-02'']), (''b'', JObj [(''2024-01-02'', JStr ''skipped'')])])
   \<and> list_all (\<lambda>p. storedEntryOk (snd p))
        [(''a'', JArr [JStr ''2024-01-01'', JStr ''2024-01-02'']), (''b'', JObj [(''2024-01-02'', JStr ''skipped'')])]
   \<and> (\<exists>s' flag. loadData None
          (Some (JObj [(''a'', JArr [JStr ''2024-01-01'', JStr ''2024-01-02'']), (''b'', JObj [(''2024-01-02'', JStr ''skipped'')])]))
          = Inr (s', flag) \<and> completionsOk (completions s'))
   \<and> (\<exists>p2. confirmOkClick (importDataDialog
          (parsesTo ''{habits:[],completions:{a:{2024-01-01:banana}}}''
             (JObj [(''habits'', JArr []),
                    (''completions'', JObj [(''a'', JObj [(''2024-01-01'', JStr ''banana'')])])]))
          (Some ''{habits:[],completions:{a:{2024-01-01:banana}}}'')
          \<lparr>store = \<lparr>habits = [JObj [(''id'', JStr ''a''), (''name'', JStr ''Run''), (''order'', JNum 1)]],
                     completions = JObj [(''a'', JObj [(''2024-01-01'', JStr ''skipped'')])]\<rparr>,
           confirmCallback = None\<rparr>) = Inr p2
        \<and> store p2 = \<lparr>habits = [JObj [(''id'', JStr ''a''), (''name'', JStr ''Run''), (''order'', JNum 1)]],
                       completions = JObj [(''a'', JObj [(''2024-01-01'', JStr ''skipped'')])]\<rparr>
        \<and> completionsOk (completions (store p2)))
   \<and> map_of [(''2024-01-01'', JStr ''skipped'')] ''2024-01-01'' = Some (JStr ''skipped'')
   \<and> ''2024-01-01'' \<notin> fst ` set (toggleCell ''2024-01-01'' [(''2024-01-01'', JStr ''skipped'')])"
proof -
  let ?s = "\<lparr>habits = [JObj [(''id'', JStr ''a''), (''name'', JStr ''Run''), (''order'', JNum 1)]],
             completions = JObj [(''a'', JObj [(''2024-01-01'', JStr ''skipped'')])]\<rparr>"
  let ?p = "\<lparr>store = ?s, confirmCallback = None\<rparr>"
  let ?p1 = "\<lparr>store = ?s, confirmCallback = Some (DeleteCallback ''a'')\<rparr>"
  let ?cs = "[(''a'', JArr [JStr ''2024-01-01'', JStr ''2024-01-02'']), (''b'', JObj [(''2024-01-02'', JStr ''skipped'')])]"
  let ?parse = "parsesTo ''{habits:[],completions:{a:{2024-01-01:banana}}}''
             (JObj [(''habits'', JArr []),
                    (''completions'', JObj [(''a'', JObj [(''2024-01-01'', JStr ''banana'')])])])"
  let ?file = "Some ''{habits:[],completions:{a:{2024-01-01:banana}}}''"
  have a: "completionsOk (completions ?s)"
    by (simp add: completionsOk_def recordOk_def cellOk_def)
  have a': "completionsOk (completions (store ?p))"
    by (simp add: completionsOk_def recordOk_def cellOk_def)
  have b: "maxOrderOf [JObj [(''id'', JStr ''a''), (''name'', JStr ''Run''), (''order'', JNum 1)]] 0 = Inr 1"
    by (simp add: orderOr0_def)
  then have b': "\<exists>m. maxOrderOf (habits ?s) 0 = Inr m \<and> m < 9007199254740992" by simp
  have c: "deleteHabitDialog ''a'' ?p = Inr ?p1"
    by (simp add: deleteHabitDialog_def deleteHabit_def showConfirm_def)
  have d: "distinct (map fst ?cs)" by simp
  have e: "list_all (\<lambda>p. storedEntryOk (snd p)) ?cs"
    by (simp add: storedEntryOk_def isDateString_def recordOk_def cellOk_def)
  have g: "map_of [(''2024-01-01'', JStr ''skipped'')] ''2024-01-01'' = Some (JStr ''skipped'')" by simp
  have sp: "store ?p = ?s" by simp
  note t = completions_invariant_preserved[of ?s "''a''" "''2024-01-01''" "''b''"
      "''2024-01-04T09:00:00.000Z''" "''Read''" ?p ?cs None ?parse ?file
      "[(''2024-01-01'', JStr ''skipped'')]"]
  from t a have r1: "\<exists>s'. toggleCompletion ''a'' ''2024-01-01'' ?s = Inr s' \<and> completionsOk (completions s')"
    by blast
  from t a b' have r2: "\<exists>s'. addHabit ''b'' ''2024-01-04T09:00:00.000Z'' ''Read'' ?s = Inr s'
        \<and> completionsOk (completions s')"
    by blast
  from t a' c have "\<exists>p2. confirmOkClick ?p1 = Inr p2 \<and> store p2 = store ?p
        \<and> completionsOk (completions (store p2))"
    by blast
  then have r3: "\<exists>p2. confirmOkClick ?p1 = Inr p2 \<and> store p2 = ?s
        \<and> completionsOk (completions (store p2))"
    unfolding sp .
  from t d e have r4: "\<exists>s' flag. loadData None (Some (JObj ?cs)) = Inr (s', flag)
        \<and> completionsOk (completions s')"
    by blast
  from t a' have "\<exists>p2. confirmOkClick (importDataDialog ?parse ?file ?p) = Inr p2 \<and> store p2 = store ?p
        \<and> completionsOk (completions (store p2))"
    by blast
  then have r5: "\<exists>p2. confirmOkClick (importDataDialog ?parse ?file ?p) = Inr p2 \<and> store p2 = ?s
        \<and> completionsOk (completions (store p2))"
    unfolding sp .
  from t g have r6: "''2024-01-01'' \<notin> fst ` set (toggleCell ''2024-01-01'' [(''2024-01-01'', JStr ''skipped'')])"
    by blast
  from a r1 b r2 c r3 d e r4 r5 g r6 show ?thesis by (intro conjI)
qed

section \<open>Reordering\<close>

lemma spliceMove_in_range:
  "fromIndex < length xs \<Longrightarrow> spliceMove fromIndex toIndex xs = map Some (moveRow fromIndex toIndex xs)"
  by (simp add: spliceMove_def moveRow_def Let_def take_map drop_map)

lemma mset_moveRow:
  assumes "fromIndex < length xs"
  shows "mset (moveRow fromIndex toIndex xs) = mset xs"
proof -
  let ?rest = "take fromIndex xs @ drop (Suc fromIndex) xs"
  have "mset (moveRow fromIndex toIndex xs) = mset (take toIndex ?rest @ drop toIndex ?rest) + {#xs ! fromIndex#}"
    by (simp add: moveRow_def Let_def)
  also have "\<dots> = mset ?rest + {#xs ! fromIndex#}"
    by (simp only: append_take_drop_id)
  also have "\<dots> = mset (take fromIndex xs @ xs ! fromIndex # drop (Suc fromIndex) xs)"
    by simp
  also have "\<dots> = mset xs"
    using assms by (simp only: id_take_nth_drop[symmetric])
  finally show ?thesis .
qed

lemma length_moveRow: "fromIndex < length xs \<Longrightarrow> length (moveRow fromIndex toIndex xs) = length xs"
  using mset_moveRow[of fromIndex xs toIndex] by (metis size_mset)

lemma moveRow_nth:
  assumes "fromIndex < length xs" "toIndex < length xs"
  shows "moveRow fromIndex toIndex xs ! toIndex = xs ! fromIndex"
proof -
  let ?rest = "take fromIndex xs @ drop (Suc fromIndex) xs"
  have "length ?rest = length xs - 1" using assms by auto
  with assms have "length (take toIndex ?rest) = toIndex" by auto
  then have "(take toIndex ?rest @ [xs ! fromIndex] @ drop toIndex ?rest) ! toIndex = xs ! fromIndex"
    by (metis append_Cons nth_append_length)
  then show ?thesis
    by (simp add: moveRow_def Let_def)
qed

lemma assignOrders_objects:
  assumes "\<forall>h \<in> set xs. isMapping h"
  shows "\<exists>ys. assignOrders (map Some xs) i = Inr ys \<and> length ys = length xs
           \<and> map withoutOrder ys = map withoutOrder xs
           \<and> (\<forall>j < length xs. getField (ys ! j) ''order'' = Inr (Some (JNum (int (i + j)))))"
  using assms
proof (induction xs arbitrary: i)
  case Nil
  then show ?case by simp
next
  case (Cons h xs)
  from Cons.prems obtain ps where h: "h = JObj ps" by (cases h) (auto simp: isMapping_def)
  from Cons.prems have "\<forall>h \<in> set xs. isMapping h" by simp
  from Cons.IH[OF this, of "i + 1"] obtain ys where
    ys: "assignOrders (map Some xs) (i + 1) = Inr ys" "length ys = length xs"
        "map withoutOrder ys = map withoutOrder xs"
        "\<forall>j < length xs. getField (ys ! j) ''order'' = Inr (Some (JNum (int (i + 1 + j))))"
    by blast
  let ?h = "JObj (AList.update ''order'' (JNum (int i)) ps)"
  have a: "assignOrders (map Some (h # xs)) i = Inr (?h # ys)"
    using h ys(1) by simp
  have b: "withoutOrder ?h = withoutOrder h"
    using h by (simp add: withoutOrder_def AList.delete_update_same)
  have c: "getField ((?h # ys) ! j) ''order'' = Inr (Some (JNum (int (i + j))))"
    if "j < length (h # xs)" for j
  proof (cases j)
    case 0
    then show ?thesis by (simp add: AList.update_conv')
  next
    case (Suc j')
    with that ys(4) show ?thesis by simp
  qed
  from a b c ys(2,3) show ?case by auto
qed

text \<open>
  What \<open>reorderHabits\<close> does on the stored array, for habits that are objects and an
  index \<^verbatim>\<open>fromIndex\<close> in range: the habit at \<^verbatim>\<open>fromIndex\<close> moves to \<^verbatim>\<open>toIndex\<close>, no
  habit is added, lost or duplicated, and every \<^verbatim>\<open>order\<close> field becomes the position.
\<close>

lemma reorderHabits_permutes:
  assumes "\<forall>h \<in> set (habits s). isMapping h" and "fromIndex < length (habits s)"
  shows "\<exists>hs. reorderHabits fromIndex toIndex s = Inr (s\<lparr>habits := hs\<rparr>)
           \<and> map withoutOrder hs = moveRow fromIndex toIndex (map withoutOrder (habits s))
           \<and> mset (map withoutOrder hs) = mset (map withoutOrder (habits s))
           \<and> length hs = length (habits s)
           \<and> (\<forall>j < length hs. getField (hs ! j) ''order'' = Inr (Some (JNum (int j))))"
proof -
  let ?m = "moveRow fromIndex toIndex (habits s)"
  have "set ?m = set (habits s)"
    using mset_moveRow[OF assms(2), of toIndex] by (metis set_mset_mset)
  with assms(1) have "\<forall>h \<in> set ?m. isMapping h" by simp
  from assignOrders_objects[OF this, of 0] obtain hs where
    hs: "assignOrders (map Some ?m) 0 = Inr hs" "length hs = length ?m"
        "map withoutOrder hs = map withoutOrder ?m"
        "\<forall>j < length ?m. getField (hs ! j) ''order'' = Inr (Some (JNum (int (0 + j))))"
    by blast
  have l: "length ?m = length (habits s)" using assms(2) by (rule length_moveRow)
  have r: "reorderHabits fromIndex toIndex s = Inr (s\<lparr>habits := hs\<rparr>)"
    using hs(1) assms(2) by (simp add: reorderHabits_def spliceMove_in_range)
  have m: "map withoutOrder ?m = moveRow fromIndex toIndex (map withoutOrder (habits s))"
    using assms(2) by (simp add: moveRow_def Let_def take_map drop_map)
  have p: "mset (map withoutOrder hs) = mset (map withoutOrder (habits s))"
    using hs(3) mset_moveRow[OF assms(2), of toIndex] by (metis mset_map)
  from hs(3) m have w: "map withoutOrder hs = moveRow fromIndex toIndex (map withoutOrder (habits s))"
    by simp
  from hs(2) l have n: "length hs = length (habits s)" by simp
  from hs(4) l n have o: "\<forall>j < length hs. getField (hs ! j) ''order'' = Inr (Some (JNum (int j)))"
    by simp
  from r w p n o show ?thesis by blast
qed


lemma ordersOf_length: "ordersOf hs = Inr ns \<Longrightarrow> length ns = length hs"
  by (induction hs arbitrary: ns) (auto split: sum.splits)

text \<open>
  When the stored array is already in the order of its \<^verbatim>\<open>order\<close> fields, the rendered
  rows are the stored array, and the row numbers that the drop handler passes are
  positions of the stored array.
\<close>

lemma sortedHabits_of_sorted:
  assumes "ordersOf hs = Inr ns" and "sorted ns"
  shows "sortedHabits hs = Inr hs"
proof -
  have l: "length ns = length hs" using assms(1) by (rule ordersOf_length)
  then have "map fst (zip ns hs) = ns" by simp
  with assms(2) have "sort_key fst (zip ns hs) = zip ns hs"
    by (simp add: sort_key_id_if_sorted)
  with l assms(1) show ?thesis by (simp add: sortedHabits_def)
qed

text \<open>
  The page keeps its array in the order of the \<^verbatim>\<open>order\<close> fields. The array is empty at
  the start; \<open>addHabit\<close> appends a habit whose order is one more than the largest order;
  \<open>reorderHabits\<close> numbers the array from 0; a toggle does not touch the array;
  \<^verbatim>\<open>renameHabit\<close> changes a name and nothing else; a deletion and an import, confirmed
  or not, change nothing; and loading reads back what was saved.
\<close>

lemma storedInOrder_empty: "storedInOrder []"
  by (simp add: storedInOrder_def)

lemma maxOrderOf_bounds:
  "maxOrderOf hs mx = Inr m \<Longrightarrow> \<exists>ns. ordersOf hs = Inr ns \<and> mx \<le> m \<and> (\<forall>n \<in> set ns. n \<le> m)"
proof (induction hs arbitrary: mx)
  case Nil
  then show ?case by simp
next
  case (Cons h hs)
  from Cons.prems obtain n where n: "orderOr0 h = Inr n" "maxOrderOf hs (max mx n) = Inr m"
    by (auto split: sum.splits)
  from Cons.IH[OF n(2)] obtain ns where
    ns: "ordersOf hs = Inr ns" "max mx n \<le> m" "\<forall>k \<in> set ns. k \<le> m" by blast
  from n(1) ns(1) have "ordersOf (h # hs) = Inr (n # ns)" by simp
  with ns(2,3) show ?case by auto
qed

lemma ordersOf_snoc:
  "ordersOf hs = Inr ns \<Longrightarrow> orderOr0 h = Inr n \<Longrightarrow> ordersOf (hs @ [h]) = Inr (ns @ [n])"
  by (induction hs arbitrary: ns) (auto split: sum.splits)

lemma addHabit_storedInOrder:
  assumes "storedInOrder (habits s)" and "addHabit newId createdAt name s = Inr s'"
  shows "storedInOrder (habits s')"
proof -
  from assms(2) obtain m where m: "maxOrderOf (habits s) 0 = Inr m"
    and h: "habits s' = habits s @ [JObj [(''id'', JStr newId), (''name'', JStr (trim name)),
                            (''order'', JNum (m + 1)), (''createdAt'', JStr createdAt)]]"
    by (auto simp: addHabit_def Let_def split: sum.splits if_splits)
  let ?h = "JObj [(''id'', JStr newId), (''name'', JStr (trim name)),
                  (''order'', JNum (m + 1)), (''createdAt'', JStr createdAt)]"
  from maxOrderOf_bounds[OF m] obtain ns where
    ns: "ordersOf (habits s) = Inr ns" "0 \<le> m" "\<forall>n \<in> set ns. n \<le> m" by blast
  from ns(2) have o: "orderOr0 ?h = Inr (m + 1)" by (simp add: orderOr0_def)
  from assms(1) ns(1) have "sorted ns" by (simp add: storedInOrder_def)
  with ns(3) have "sorted (ns @ [m + 1])" by (auto simp: sorted_append)
  moreover have "ordersOf (habits s') = Inr (ns @ [m + 1])"
    unfolding h using ns(1) o by (rule ordersOf_snoc)
  moreover have "list_all isMapping (habits s')"
    using assms(1) h by (simp add: storedInOrder_def isMapping_def)
  ultimately show ?thesis by (simp add: storedInOrder_def)
qed

lemma ordersOf_positions:
  "\<forall>j < length hs. getField (hs ! j) ''order'' = Inr (Some (JNum (int (i + j)))) \<Longrightarrow>
   ordersOf hs = Inr (map int [i..<i + length hs]) \<and> list_all isMapping hs"
proof (induction hs arbitrary: i)
  case Nil
  then show ?case by simp
next
  case (Cons h hs)
  from Cons.prems have h: "getField h ''order'' = Inr (Some (JNum (int i)))" by force
  then have o: "orderOr0 h = Inr (int i)" by (simp add: orderOr0_def)
  from h have m: "isMapping h" by (cases h) (simp_all add: isMapping_def)
  have "\<forall>j < length hs. getField (hs ! j) ''order'' = Inr (Some (JNum (int (Suc i + j))))"
  proof (intro allI impI)
    fix j assume "j < length hs"
    then have "Suc j < length (h # hs)" by simp
    from Cons.prems[rule_format, OF this] show "getField (hs ! j) ''order'' = Inr (Some (JNum (int (Suc i + j))))"
      by simp
  qed
  from Cons.IH[OF this] have r: "ordersOf hs = Inr (map int [Suc i..<Suc i + length hs])" "list_all isMapping hs"
    by blast+
  have "i < i + length (h # hs)" by simp
  from upt_conv_Cons[OF this] have "[i..<i + length (h # hs)] = i # [Suc i..<Suc i + length hs]"
    by simp
  with o r m show ?case by simp
qed

lemma reorderHabits_storedInOrder:
  assumes "\<forall>h \<in> set (habits s). isMapping h" and "fromIndex < length (habits s)"
    and "reorderHabits fromIndex toIndex s = Inr s'"
  shows "storedInOrder (habits s')"
proof -
  from reorderHabits_permutes[OF assms(1,2), of toIndex] assms(3) obtain hs where
    hs: "s' = s\<lparr>habits := hs\<rparr>"
        "\<forall>j < length hs. getField (hs ! j) ''order'' = Inr (Some (JNum (int j)))"
    by auto
  from hs(2) have "\<forall>j < length hs. getField (hs ! j) ''order'' = Inr (Some (JNum (int (0 + j))))"
    by simp
  from ordersOf_positions[OF this] have o: "ordersOf hs = Inr (map int [0..<length hs])"
    "list_all isMapping hs" by simp_all
  have "sorted (map int [0..<length hs])"
    by (simp add: sorted_map sorted_wrt_iff_nth_less)
  with o hs(1) show ?thesis by (simp add: storedInOrder_def)
qed

lemma storedInOrder_kept:
  assumes "storedInOrder (habits (store p))"
  shows "(\<forall>s'. addHabit newId createdAt name (store p) = Inr s' \<longrightarrow> storedInOrder (habits s'))
     \<and> (\<forall>s'. toggleCompletion h d (store p) = Inr s' \<longrightarrow> storedInOrder (habits s'))
     \<and> (\<forall>s'. fromIndex < length (habits (store p))
              \<and> reorderHabits fromIndex toIndex (store p) = Inr s' \<longrightarrow> storedInOrder (habits s'))
     \<and> (\<forall>p1 p2. deleteHabitDialog h p = Inr p1 \<and> confirmOkClick p1 = Inr p2 \<longrightarrow>
              storedInOrder (habits (store p2)))
     \<and> (\<forall>p2. confirmOkClick (importDataDialog parse chosen p) = Inr p2 \<longrightarrow>
              storedInOrder (habits (store p2)))"
proof (intro conjI allI impI)
  fix s' assume "addHabit newId createdAt name (store p) = Inr s'"
  with assms show "storedInOrder (habits s')" by (rule addHabit_storedInOrder)
next
  fix s' assume "toggleCompletion h d (store p) = Inr s'"
  then have "habits s' = habits (store p)"
    by (auto simp: toggleCompletion_def split: json.splits)
  with assms show "storedInOrder (habits s')" by simp
next
  fix s' assume a: "fromIndex < length (habits (store p))
      \<and> reorderHabits fromIndex toIndex (store p) = Inr s'"
  from assms have "\<forall>h \<in> set (habits (store p)). isMapping h"
    by (simp add: storedInOrder_def list_all_iff)
  from reorderHabits_storedInOrder[OF this] a show "storedInOrder (habits s')" by blast
next
  fix p1 p2 assume a: "deleteHabitDialog h p = Inr p1 \<and> confirmOkClick p1 = Inr p2"
  then have "store p2 = store p"
    using store_deleteHabitDialog[of h p p1] by (auto simp: confirmOkClick_hides store_hideConfirm)
  with assms show "storedInOrder (habits (store p2))" by simp
next
  fix p2 assume "confirmOkClick (importDataDialog parse chosen p) = Inr p2"
  then have "store p2 = store p"
    by (auto simp: confirmOkClick_hides store_hideConfirm store_importDataDialog)
  with assms show "storedInOrder (habits (store p2))" by simp
qed

text \<open>
  Claim C4. Let the stored array be in the order of its \<^verbatim>\<open>order\<close> fields, as the page
  keeps it, and let both indices be in range. Then the rows sorted by \<^verbatim>\<open>order\<close> are
  the stored array, and \<open>reorderHabits\<close> takes the habit at position \<^verbatim>\<open>fromIndex\<close> of
  these rows out and puts it back at position \<^verbatim>\<open>toIndex\<close>. Apart from the \<^verbatim>\<open>order\<close>
  fields the result is a rearrangement of the original, with no habit added, lost or
  duplicated; every \<^verbatim>\<open>order\<close> field is the position of its habit, from 0 to \<open>n - 1\<close>;
  and the new array is again in the order of its \<^verbatim>\<open>order\<close> fields.
\<close>

theorem reorderHabits_moves_row:
  assumes "storedInOrder (habits s)"
    and "fromIndex < length (habits s)" and "toIndex < length (habits s)"
  shows "\<exists>hs. sortedHabits (habits s) = Inr (habits s)
     \<and> reorderHabits fromIndex toIndex s = Inr (s\<lparr>habits := hs\<rparr>)
     \<and> map withoutOrder hs = moveRow fromIndex toIndex (map withoutOrder (habits s))
     \<and> withoutOrder (hs ! toIndex) = withoutOrder (habits s ! fromIndex)
     \<and> mset (map withoutOrder hs) = mset (map withoutOrder (habits s))
     \<and> length hs = length (habits s)
     \<and> (\<forall>j < length hs. getField (hs ! j) ''order'' = Inr (Some (JNum (int j))))
     \<and> storedInOrder hs \<and> sortedHabits hs = Inr hs"
proof -
  from assms(1) obtain ns where ns: "ordersOf (habits s) = Inr ns" "sorted ns"
    and ob: "\<forall>h \<in> set (habits s). isMapping h"
    by (auto simp: storedInOrder_def list_all_iff split: sum.splits)
  from ns have rows: "sortedHabits (habits s) = Inr (habits s)"
    by (rule sortedHabits_of_sorted)
  from reorderHabits_permutes[OF ob assms(2), of toIndex] obtain hs where
    hs: "reorderHabits fromIndex toIndex s = Inr (s\<lparr>habits := hs\<rparr>)"
        "map withoutOrder hs = moveRow fromIndex toIndex (map withoutOrder (habits s))"
        "mset (map withoutOrder hs) = mset (map withoutOrder (habits s))"
        "length hs = length (habits s)"
        "\<forall>j < length hs. getField (hs ! j) ''order'' = Inr (Some (JNum (int j)))"
    by blast
  have "withoutOrder (hs ! toIndex) = map withoutOrder hs ! toIndex"
    using assms(3) hs(4) by simp
  also have "\<dots> = map withoutOrder (habits s) ! fromIndex"
    unfolding hs(2) using assms(2,3) by (simp add: moveRow_nth)
  also have "\<dots> = withoutOrder (habits s ! fromIndex)"
    using assms(2) by simp
  finally have at: "withoutOrder (hs ! toIndex) = withoutOrder (habits s ! fromIndex)" .
  from reorderHabits_storedInOrder[OF ob assms(2) hs(1)] have inv: "storedInOrder hs" by simp
  then have again: "sortedHabits hs = Inr hs"
    by (auto simp: storedInOrder_def split: sum.splits intro: sortedHabits_of_sorted)
  from rows hs at inv again show ?thesis by blast
qed

text \<open>
  Three habits as \<open>addHabit\<close> numbers them; the first row is dragged onto the third.
\<close>

theorem reorderHabits_moves_row_witness:
  "storedInOrder (habits
      \<lparr>habits = [JObj [(''id'', JStr ''a''), (''name'', JStr ''A''), (''order'', JNum 1)],
                 JObj [(''id'', JStr ''b''), (''name'', JStr ''B''), (''order'', JNum 2)],
                 JObj [(''id'', JStr ''c''), (''name'', JStr ''C''), (''order'', JNum 3)]],
       completions = JObj []\<rparr>)
   \<and> sortedHabits [JObj [(''id'', JStr ''a''), (''name'', JStr ''A''), (''order'', JNum 1)],
                   JObj [(''id'', JStr ''b''), (''name'', JStr ''B''), (''order'', JNum 2)],
                   JObj [(''id'', JStr ''c''), (''name'', JStr ''C''), (''order'', JNum 3)]]
       = Inr [JObj [(''id'', JStr ''a''), (''name'', JStr ''A''), (''order'', JNum 1)],
              JObj [(''id'', JStr ''b''), (''name'', JStr ''B''), (''order'', JNum 2)],
              JObj [(''id'', JStr ''c''), (''name'', JStr ''C''), (''order'', JNum 3)]]
   \<and> reorderHabits 0 2
      \<lparr>habits = [JObj [(''id'', JStr ''a''), (''name'', JStr ''A''), (''order'', JNum 1)],
                 JObj [(''id'', JStr ''b''), (''name'', JStr ''B''), (''order'', JNum 2)],
                 JObj [(''id'', JStr ''c''), (''name'', JStr ''C''), (''order'', JNum 3)]],
       completions = JObj []\<rparr>
     = Inr \<lparr>habits = [JObj [(''id'', JStr ''b''), (''name'', JStr ''B''), (''order'', JNum 0)],
                      JObj [(''id'', JStr ''c''), (''name'', JStr ''C''), (''order'', JNum 1)],
                      JObj [(''id'', JStr ''a''), (''name'', JStr ''A''), (''order'', JNum 2)]],
            completions = JObj []\<rparr>
   \<and> storedInOrder [JObj [(''id'', JStr ''b''), (''name'', JStr ''B''), (''order'', JNum 0)],
                    JObj [(''id'', JStr ''c''), (''name'', JStr ''C''), (''order'', JNum 1)],
                    JObj [(''id'', JStr ''a''), (''name'', JStr ''A''), (''order'', JNum 2)]]"
proof -
  let ?hs = "[JObj [(''id'', JStr ''a''), (''name'', JStr ''A''), (''order'', JNum 1)],
              JObj [(''id'', JStr ''b''), (''name'', JStr ''B''), (''order'', JNum 2)],
              JObj [(''id'', JStr ''c''), (''name'', JStr ''C''), (''order'', JNum 3)]]"
  let ?s = "\<lparr>habits = ?hs, completions = JObj []\<rparr>"
  let ?hs' = "[JObj [(''id'', JStr ''b''), (''name'', JStr ''B''), (''order'', JNum 0)],
               JObj [(''id'', JStr ''c''), (''name'', JStr ''C''), (''order'', JNum 1)],
               JObj [(''id'', JStr ''a''), (''name'', JStr ''A''), (''order'', JNum 2)]]"
  have a: "storedInOrder (habits ?s)"
    by (simp add: storedInOrder_def isMapping_def orderOr0_def)
  have b: "0 < length (habits ?s)" "2 < length (habits ?s)" by simp_all
  have r: "reorderHabits 0 2 ?s = Inr \<lparr>habits = ?hs', completions = JObj []\<rparr>"
    by (simp add: reorderHabits_def spliceMove_def)
  from reorderHabits_moves_row[OF a b] obtain hs where
    hs: "sortedHabits (habits ?s) = Inr (habits ?s)"
        "reorderHabits 0 2 ?s = Inr (?s\<lparr>habits := hs\<rparr>)" "storedInOrder hs"
    by blast
  from hs(2) r have "hs = ?hs'" by simp
  with hs(3) have c: "storedInOrder ?hs'" by simp
  from hs(1) have d: "sortedHabits ?hs = Inr ?hs" by simp
  from a d r c show ?thesis by (intro conjI)
qed

section \<open>Calendar facts\<close>

text \<open>Different calendar dates have different day numbers.\<close>

lemma ceil_div_Suc:
  assumes "0 < k"
  shows "(Suc y + (k - 1)) div k = (y + (k - 1)) div k + (if y mod k = 0 then 1 else 0)"
proof -
  define q r where "q = y div k" and "r = y mod k"
  have y: "y = q * k + r" and r: "r < k"
    using assms by (simp_all add: q_def r_def)
  show ?thesis
  proof (cases "r = 0")
    case True
    have "(y + (k - 1)) div k = q"
      using assms y True by (intro div_nat_eqI) (auto simp: algebra_simps)
    moreover have "(Suc y + (k - 1)) div k = Suc q"
      using assms y True by (intro div_nat_eqI) (auto simp: algebra_simps)
    ultimately show ?thesis using True by (simp add: r_def)
  next
    case False
    have "(y + (k - 1)) div k = Suc q"
      using assms y r False by (intro div_nat_eqI) (auto simp: algebra_simps)
    moreover have "(Suc y + (k - 1)) div k = Suc q"
      using assms y r False by (intro div_nat_eqI) (auto simp: algebra_simps)
    ultimately show ?thesis using False by (simp add: r_def)
  qed
qed

lemma daysBeforeYear_Suc: "daysBeforeYear (Suc y) = daysBeforeYear y + yearLength y"
proof -
  define a b c where "a = (y + 3) div 4" and "b = (y + 99) div 100" and "c = (y + 399) div 400"
  define a' b' c' :: nat where "a' = (if y mod 4 = 0 then 1 else 0)"
    and "b' = (if y mod 100 = 0 then 1 else 0)" and "c' = (if y mod 400 = 0 then 1 else 0)"
  have a: "(Suc y + 3) div 4 = a + a'"
    using ceil_div_Suc[of 4 y] by (simp add: a_def a'_def)
  have b: "(Suc y + 99) div 100 = b + b'"
    using ceil_div_Suc[of 100 y] by (simp add: b_def b'_def)
  have c: "(Suc y + 399) div 400 = c + c'"
    using ceil_div_Suc[of 400 y] by (simp add: c_def c'_def)
  have d: "b \<le> y" by (simp add: b_def)
  have e: "y mod 100 = 0" if "y mod 400 = 0"
    using that mod_mod_cancel[of 100 400 y] by simp
  have f: "y mod 4 = 0" if "y mod 100 = 0"
    using that mod_mod_cancel[of 4 100 y] by simp
  have l: "daysBeforeYear (Suc y) = 365 * y + 365 + (a + a') - (b + b') + (c + c')"
    unfolding daysBeforeYear_def a b c by simp
  have r: "daysBeforeYear y = 365 * y + a - b + c"
    unfolding daysBeforeYear_def a_def b_def c_def ..
  have n: "a' + c' = b' + (yearLength y - 365)" "b' \<le> a'" "b' \<le> 1"
    using e f by (auto simp: a'_def b'_def c'_def yearLength_def isLeap_def)
  have m: "365 \<le> yearLength y" by (simp add: yearLength_def)
  from l r n d m show ?thesis by linarith
qed

lemma daysBeforeYear_less:
  "y < y' \<Longrightarrow> daysBeforeYear y + yearLength y \<le> daysBeforeYear y'"
proof (induction y')
  case 0
  then show ?case by simp
next
  case (Suc y')
  show ?case
  proof (cases "y = y'")
    case True
    then show ?thesis by (simp add: daysBeforeYear_Suc)
  next
    case False
    with Suc.prems have "y < y'" by simp
    from Suc.IH[OF this] show ?thesis by (simp add: daysBeforeYear_Suc)
  qed
qed

lemma daysBeforeMonth_Suc:
  "1 \<le> m \<Longrightarrow> daysBeforeMonth y (Suc m) = daysBeforeMonth y m + daysInMonth y m"
  by (simp add: daysBeforeMonth_def)

lemma daysBeforeMonth_later:
  assumes "1 \<le> m" "m < m'"
  shows "daysBeforeMonth y m + daysInMonth y m \<le> daysBeforeMonth y m'"
  using assms(2)
proof (induction m')
  case 0
  then show ?case by simp
next
  case (Suc m')
  show ?case
  proof (cases "m = m'")
    case True
    with assms(1) show ?thesis by (simp add: daysBeforeMonth_Suc)
  next
    case False
    with Suc.prems have l: "m < m'" by simp
    with assms(1) have "1 \<le> m'" by simp
    from Suc.IH[OF l] daysBeforeMonth_Suc[OF this, of y] show ?thesis by simp
  qed
qed

lemma daysBeforeMonth_13: "daysBeforeMonth y 13 = yearLength y"
  by (simp add: daysBeforeMonth_def daysInMonth_def yearLength_def upt_rec)

lemma daysInMonth_pos: "0 < daysInMonth y m"
  by (simp add: daysInMonth_def)

lemma dayOfYear_bound:
  assumes "validDate y m d"
  shows "1 \<le> daysBeforeMonth y m + d" "daysBeforeMonth y m + d \<le> yearLength y"
proof -
  from assms have v: "1 \<le> m" "m \<le> 12" "1 \<le> d" "d \<le> daysInMonth y m"
    by (simp_all add: validDate_def)
  then show "1 \<le> daysBeforeMonth y m + d" by simp
  from v have "m < 13" by simp
  from daysBeforeMonth_later[OF v(1) this, of y] v(4)
  show "daysBeforeMonth y m + d \<le> yearLength y"
    by (simp add: daysBeforeMonth_13)
qed

lemma dayOfYear_inj:
  assumes "validDate y m d" "validDate y m' d'"
    and "daysBeforeMonth y m + d = daysBeforeMonth y m' + d'"
  shows "m = m' \<and> d = d'"
proof -
  from assms(1) have v: "1 \<le> m" "1 \<le> d" "d \<le> daysInMonth y m" by (simp_all add: validDate_def)
  from assms(2) have v': "1 \<le> m'" "1 \<le> d'" "d' \<le> daysInMonth y m'" by (simp_all add: validDate_def)
  have "\<not> m < m'"
  proof
    assume "m < m'"
    from daysBeforeMonth_later[OF v(1) this, of y] v v' assms(3) show False by linarith
  qed
  moreover have "\<not> m' < m"
  proof
    assume "m' < m"
    from daysBeforeMonth_later[OF v'(1) this, of y] v v' assms(3) show False by linarith
  qed
  ultimately have "m = m'" by simp
  with assms(3) show ?thesis by simp
qed

lemma epochDay_inj:
  assumes "validDate y m d" "validDate y' m' d'" "epochDay y m d = epochDay y' m' d'"
  shows "y = y' \<and> m = m' \<and> d = d'"
proof -
  from assms(3) have e: "daysBeforeYear y + daysBeforeMonth y m + d = daysBeforeYear y' + daysBeforeMonth y' m' + d'"
    by (simp add: epochDay_def)
  note b = dayOfYear_bound[OF assms(1)] dayOfYear_bound[OF assms(2)]
  have "\<not> y < y'"
  proof
    assume "y < y'"
    from daysBeforeYear_less[OF this] b e show False by linarith
  qed
  moreover have "\<not> y' < y"
  proof
    assume "y' < y"
    from daysBeforeYear_less[OF this] b e show False by linarith
  qed
  ultimately have y: "y = y'" by simp
  with e have "daysBeforeMonth y m + d = daysBeforeMonth y m' + d'" by simp
  from dayOfYear_inj[OF assms(1) assms(2)[folded y] this] y show ?thesis by simp
qed

text \<open>A date key is determined by its day number.\<close>

lemma digitVal_less: "digitVal c = Some d \<Longrightarrow> d < 10"
  by (auto simp: digitVal_def Let_def split: if_splits)

lemma digitVal_inj: "digitVal c = Some d \<Longrightarrow> digitVal c' = Some d \<Longrightarrow> c = c'"
proof -
  assume a: "digitVal c = Some d" "digitVal c' = Some d"
  then have "48 \<le> (of_char c :: nat)" "48 \<le> (of_char c' :: nat)"
    "(of_char c :: nat) - 48 = of_char c' - 48"
    by (auto simp: digitVal_def Let_def split: if_splits)
  then have "(of_char c :: nat) = of_char c'" by linarith
  then show "c = c'" by (simp only: of_char_eq_iff)
qed

lemma dec_step:
  fixes a b a' b' :: nat
  assumes "b < 10" "b' < 10" "10 * a + b = 10 * a' + b'"
  shows "a = a' \<and> b = b'"
proof -
  from assms(3) have "(10 * a + b) div 10 = (10 * a' + b') div 10" by simp
  with assms(1,2) have "a = a'" by simp
  with assms(3) show ?thesis by simp
qed

lemma digitsVal2_inj:
  assumes "digitsVal [a, b] 0 = Some n" "digitsVal [a', b'] 0 = Some n"
  shows "a = a' \<and> b = b'"
proof -
  from assms(1) obtain p q where 1: "digitVal a = Some p" "digitVal b = Some q" "n = 10 * p + q"
    by (auto split: option.splits)
  from assms(2) obtain p' q' where 2: "digitVal a' = Some p'" "digitVal b' = Some q'" "n = 10 * p' + q'"
    by (auto split: option.splits)
  from 1(3) 2(3) have "10 * p + q = 10 * p' + q'" by simp
  from dec_step[OF digitVal_less[OF 1(2)] digitVal_less[OF 2(2)] this] 1 2
  show ?thesis by (auto intro: digitVal_inj)
qed

lemma digitsVal4_inj:
  assumes "digitsVal [a, b, c, d] 0 = Some n" "digitsVal [a', b', c', d'] 0 = Some n"
  shows "a = a' \<and> b = b' \<and> c = c' \<and> d = d'"
proof -
  from assms(1) obtain p q r t where 1: "digitVal a = Some p" "digitVal b = Some q"
      "digitVal c = Some r" "digitVal d = Some t" "n = 10 * (10 * (10 * p + q) + r) + t"
    by (auto split: option.splits)
  from assms(2) obtain p' q' r' t' where 2: "digitVal a' = Some p'" "digitVal b' = Some q'"
      "digitVal c' = Some r'" "digitVal d' = Some t'" "n = 10 * (10 * (10 * p' + q') + r') + t'"
    by (auto split: option.splits)
  from 1(5) 2(5) have "10 * (10 * (10 * p + q) + r) + t = 10 * (10 * (10 * p' + q') + r') + t'" by simp
  from dec_step[OF digitVal_less[OF 1(4)] digitVal_less[OF 2(4)] this]
  have x: "10 * (10 * p + q) + r = 10 * (10 * p' + q') + r'" "t = t'" by simp_all
  from dec_step[OF digitVal_less[OF 1(3)] digitVal_less[OF 2(3)] x(1)]
  have y: "10 * p + q = 10 * p' + q'" "r = r'" by simp_all
  from dec_step[OF digitVal_less[OF 1(2)] digitVal_less[OF 2(2)] y(1)]
  have z: "p = p'" "q = q'" by simp_all
  from x y z 1 2 show ?thesis by (auto intro: digitVal_inj)
qed

lemma parseDate_SomeD:
  assumes "parseDate s = Some n"
  obtains y1 y2 y3 y4 m1 m2 d1 d2 y m d where
    "s = [y1, y2, y3, y4, CHR ''-'', m1, m2, CHR ''-'', d1, d2]"
    "digitsVal [y1, y2, y3, y4] 0 = Some y" "digitsVal [m1, m2] 0 = Some m"
    "digitsVal [d1, d2] 0 = Some d" "validDate y m d" "n = epochDay y m d"
  using assms unfolding parseDate_def
  by (auto split: list.splits if_splits option.splits prod.splits)

lemma parseDate_inj:
  assumes "parseDate s = Some n" "parseDate s' = Some n"
  shows "s = s'"
proof -
  from assms(1) obtain y1 y2 y3 y4 m1 m2 d1 d2 y m d where
    1: "s = [y1, y2, y3, y4, CHR ''-'', m1, m2, CHR ''-'', d1, d2]"
    "digitsVal [y1, y2, y3, y4] 0 = Some y" "digitsVal [m1, m2] 0 = Some m"
    "digitsVal [d1, d2] 0 = Some d" "validDate y m d" "n = epochDay y m d"
    by (rule parseDate_SomeD)
  from assms(2) obtain y1' y2' y3' y4' m1' m2' d1' d2' y' m' d' where
    2: "s' = [y1', y2', y3', y4', CHR ''-'', m1', m2', CHR ''-'', d1', d2']"
    "digitsVal [y1', y2', y3', y4'] 0 = Some y'" "digitsVal [m1', m2'] 0 = Some m'"
    "digitsVal [d1', d2'] 0 = Some d'" "validDate y' m' d'" "n = epochDay y' m' d'"
    by (rule parseDate_SomeD)
  from 1(6) 2(6) have "epochDay y m d = epochDay y' m' d'" by simp
  from epochDay_inj[OF 1(5) 2(5) this] have e: "y = y'" "m = m'" "d = d'" by simp_all
  from digitsVal4_inj[OF 1(2) 2(2)[folded e(1)]] digitsVal2_inj[OF 1(3) 2(3)[folded e(2)]]
    digitsVal2_inj[OF 1(4) 2(4)[folded e(3)]] 1(1) 2(1)
  show ?thesis by simp
qed

section \<open>The streak loops on day numbers\<close>

lemma roundDays_days: "roundDays (msPerDay * n) = n"
proof -
  have "roundDays (msPerDay * n) = (86400000 + n * 172800000) div 172800000"
    by (simp add: roundDays_def msPerDay_def)
  also have "\<dots> = n" by simp
  finally show ?thesis .
qed

lemma roundDays_diff: "roundDays (msPerDay * a - msPerDay * b) = a - b"
  using roundDays_days[of "a - b"] by (simp add: right_diff_distrib)

lemma currentLoop_days:
  "currentLoop (map (\<lambda>d. msPerDay * d) (a # ds)) c = c - 1 + runBack (a # ds)"
  if "1 \<le> c"
  using that
proof (induction ds arbitrary: a c)
  case Nil
  then show ?case by simp
next
  case (Cons b ds)
  from Cons.IH[of "c + 1" b] Cons.prems show ?case
    by (simp add: roundDays_diff)
qed

lemma longestLoop_days_Cons:
  "sorted_wrt (<) (a # ds) \<Longrightarrow>
   longestLoop (map (\<lambda>d. msPerDay * d) (a # ds)) t l = runScan (a # ds) t l"
proof (induction ds arbitrary: a t l)
  case Nil
  then show ?case by simp
next
  case (Cons b ds)
  from Cons.prems have s: "sorted_wrt (<) (b # ds)" and ab: "a < b" by simp_all
  show ?case
  proof (cases "b - a = 1")
    case True
    with Cons.IH[OF s, of "t + 1" "max l (t + 1)"] show ?thesis
      by (simp add: roundDays_diff Let_def)
  next
    case False
    with ab have "b - a > 1" by simp
    with Cons.IH[OF s, of 1 l] False show ?thesis
      by (simp add: roundDays_diff Let_def)
  qed
qed

lemma longestLoop_days:
  "sorted_wrt (<) ds \<Longrightarrow>
   longestLoop (map (\<lambda>d. msPerDay * d) ds) t l = runScan ds t l"
  by (cases ds) (simp_all only: longestLoop_days_Cons, simp)

lemma runBack_run:
  assumes "sorted_wrt (>) (a # ds)"
  shows "1 \<le> runBack (a # ds)
     \<and> (\<forall>i < runBack (a # ds). a - int i \<in> set (a # ds))
     \<and> a - int (runBack (a # ds)) \<notin> set (a # ds)"
  using assms
proof (induction ds arbitrary: a)
  case Nil
  then show ?case by simp
next
  case (Cons b ds)
  from Cons.prems have s: "sorted_wrt (>) (b # ds)" and ab: "b < a"
    and below: "\<forall>x \<in> set (b # ds). x \<le> b" by auto
  show ?case
  proof (cases "a - b = 1")
    case True
    let ?k = "runBack (b # ds)"
    from Cons.IH[OF s] have ih: "1 \<le> ?k" "\<forall>i < ?k. b - int i \<in> set (b # ds)"
      "b - int ?k \<notin> set (b # ds)" by blast+
    have r: "runBack (a # b # ds) = Suc ?k" using True by simp
    have m: "a - int i \<in> set (a # b # ds)" if "i < Suc ?k" for i
    proof (cases i)
      case 0
      then show ?thesis by simp
    next
      case (Suc j)
      with that have "j < ?k" by simp
      with ih(2) have "b - int j \<in> set (b # ds)" by blast
      moreover have "a - int i = b - int j" using True Suc by simp
      ultimately show ?thesis by simp
    qed
    have e: "a - int (Suc ?k) = b - int ?k" using True by simp
    have "b - int ?k \<noteq> a" using ab by simp
    with ih(3) have "b - int ?k \<notin> set (a # b # ds)" by simp
    with e have n: "a - int (Suc ?k) \<notin> set (a # b # ds)" by metis
    from r m n show ?thesis by auto
  next
    case False
    then have r: "runBack (a # b # ds) = 1" by simp
    from False ab have "b < a - 1" by simp
    with below have "a - 1 \<notin> set (b # ds)" by auto
    with r show ?thesis by auto
  qed
qed

text \<open>The two sorts of \<open>streakOf\<close>, read as sorts of day numbers.\<close>

lemma distinct_doneDates: "distinct (map fst habitData) \<Longrightarrow> distinct (doneDates habitData)"
  by (simp add: doneDates_def distinct_map_filter)

lemma timeOf_dayNo: "parseDate k \<noteq> None \<Longrightarrow> timeOf k = msPerDay * dayNo k"
  by (auto simp: timeOf_def dateMs_def dayNo_def)

lemma dayNo_inj_on:
  assumes "\<forall>k \<in> set dd. parseDate k \<noteq> None"
  shows "inj_on dayNo (set dd)"
proof (rule inj_onI)
  fix x y assume a: "x \<in> set dd" "y \<in> set dd" "dayNo x = dayNo y"
  from assms a(1) obtain n where n: "parseDate x = Some n" by auto
  from assms a(2) obtain m where m: "parseDate y = Some m" by auto
  from a(3) n m have "n = m" by (simp add: dayNo_def)
  with n m show "x = y" by (auto intro: parseDate_inj)
qed

lemma sorted_days_of_times:
  assumes "\<forall>k \<in> set S. parseDate k \<noteq> None" and "sorted (map timeOf S)"
  shows "sorted (map dayNo S)"
proof -
  have "map timeOf S = map (\<lambda>k. msPerDay * dayNo k) S"
    using assms(1) by (intro map_cong) (auto simp: timeOf_dayNo)
  with assms(2) have "sorted_wrt (\<lambda>x y. msPerDay * dayNo x \<le> msPerDay * dayNo y) S"
    by (simp add: sorted_wrt_map)
  then have "sorted_wrt (\<lambda>x y. dayNo x \<le> dayNo y) S"
    by (rule sorted_wrt_mono_rel[rotated]) (simp add: msPerDay_def)
  then show ?thesis by (simp add: sorted_wrt_map)
qed

lemma sorted_days_of_neg_times:
  assumes "\<forall>k \<in> set S. parseDate k \<noteq> None" and "sorted (map (\<lambda>d. - timeOf d) S)"
  shows "sorted (rev (map dayNo S))"
proof -
  have "map (\<lambda>d. - timeOf d) S = map (\<lambda>k. - (msPerDay * dayNo k)) S"
    using assms(1) by (intro map_cong) (auto simp: timeOf_dayNo)
  with assms(2) have "sorted_wrt (\<lambda>x y. - (msPerDay * dayNo x) \<le> - (msPerDay * dayNo y)) S"
    by (simp add: sorted_wrt_map)
  then have "sorted_wrt (\<lambda>x y. dayNo y \<le> dayNo x) S"
    by (rule sorted_wrt_mono_rel[rotated]) (simp add: msPerDay_def)
  then show ?thesis by (simp add: sorted_wrt_rev sorted_wrt_map rev_map[symmetric])
qed

lemma asc_days:
  assumes "\<forall>k \<in> set dd. parseDate k \<noteq> None"
  shows "map dayNo (sort_key timeOf dd) = sort (map dayNo dd)"
proof -
  have s: "sorted (map dayNo (sort_key timeOf dd))"
    using assms by (intro sorted_days_of_times) simp_all
  have m: "mset (map dayNo (sort_key timeOf dd)) = mset (map dayNo dd)"
    by simp
  from properties_for_sort[OF m s] show ?thesis by simp
qed

lemma desc_days:
  assumes "\<forall>k \<in> set dd. parseDate k \<noteq> None"
  shows "map dayNo (sort_key (\<lambda>d. - timeOf d) dd) = rev (sort (map dayNo dd))"
proof -
  let ?S = "sort_key (\<lambda>d. - timeOf d) dd"
  have s: "sorted (rev (map dayNo ?S))"
    using assms by (intro sorted_days_of_neg_times) simp_all
  have m: "mset (rev (map dayNo ?S)) = mset (map dayNo dd)"
    by simp
  from properties_for_sort[OF m s] have "rev (sort (map dayNo dd)) = rev (rev (map dayNo ?S))"
    by (simp only:)
  then show ?thesis by simp
qed

lemma strict_sort_days:
  assumes "distinct dd" "\<forall>k \<in> set dd. parseDate k \<noteq> None"
  shows "sorted_wrt (<) (sort (map dayNo dd))" "sorted_wrt (>) (rev (sort (map dayNo dd)))"
proof -
  have "distinct (map dayNo dd)"
    using assms dayNo_inj_on[OF assms(2)] by (simp add: distinct_map)
  then show a: "sorted_wrt (<) (sort (map dayNo dd))"
    by (simp add: strict_sorted_iff)
  then show "sorted_wrt (>) (rev (sort (map dayNo dd)))"
    by (simp add: sorted_wrt_rev)
qed

lemma hd_desc_Max:
  assumes "sorted_wrt (>) (a # ds)"
  shows "a = Max (set (a # ds))"
proof -
  from assms have "\<forall>x \<in> set (a # ds). x \<le> a" by auto
  then show ?thesis by (intro Max_eqI[symmetric]) auto
qed

lemma streakOf_empty:
  "doneDates habitData = [] \<Longrightarrow> streakOf today yesterday habitData = Inr \<lparr>current = 0, longest = 0\<rparr>"
  by (simp add: streakOf_def)

lemma streakOf_days:
  assumes "distinct (map fst habitData)"
    and "\<forall>k \<in> set (doneDates habitData). parseDate k \<noteq> None"
    and "doneDates habitData \<noteq> []"
  shows "\<exists>latest. latest \<in> set (doneDates habitData)
     \<and> dayNo latest = Max (set (doneDays habitData))
     \<and> streakOf today yesterday habitData =
         Inr \<lparr>current = (if latest = today \<or> latest = yesterday
                          then runBack (rev (sort (doneDays habitData))) else 0),
              longest = runScan (sort (doneDays habitData)) 1 1\<rparr>"
proof -
  let ?dd = "doneDates habitData"
  let ?S = "sort_key (\<lambda>d. - timeOf d) ?dd"
  let ?A = "sort_key timeOf ?dd"
  have d: "distinct ?dd" using assms(1) by (rule distinct_doneDates)
  have p: "\<forall>k \<in> set ?S. parseDate k \<noteq> None" "\<forall>k \<in> set ?A. parseDate k \<noteq> None"
    using assms(2) by simp_all
  have tS: "map timeOf ?S = map (\<lambda>d. msPerDay * d) (rev (sort (doneDays habitData)))"
  proof -
    have "map timeOf ?S = map (\<lambda>k. msPerDay * dayNo k) ?S"
      using p(1) by (intro map_cong) (auto simp: timeOf_dayNo)
    also have "\<dots> = map (\<lambda>d. msPerDay * d) (map dayNo ?S)" by simp
    finally show ?thesis
      using desc_days[OF assms(2)] by (simp add: doneDays_def)
  qed
  have tA: "map timeOf ?A = map (\<lambda>d. msPerDay * d) (sort (doneDays habitData))"
  proof -
    have "map timeOf ?A = map (\<lambda>k. msPerDay * dayNo k) ?A"
      using p(2) by (intro map_cong) (auto simp: timeOf_dayNo)
    also have "\<dots> = map (\<lambda>d. msPerDay * d) (map dayNo ?A)" by simp
    finally show ?thesis
      using asc_days[OF assms(2)] by (simp add: doneDays_def)
  qed
  note st = strict_sort_days[OF d assms(2), folded doneDays_def]
  have ne: "?S \<noteq> []" using assms(3) by (metis length_sort length_0_conv)
  then obtain latest rest where S: "?S = latest # rest" by (cases ?S) auto
  then have l: "latest \<in> set ?dd" by (metis list.set_intros(1) set_sort)
  from S desc_days[OF assms(2)] have r: "rev (sort (doneDays habitData)) = dayNo latest # map dayNo rest"
    by (simp add: doneDays_def)
  with st(2) have "dayNo latest = Max (set (rev (sort (doneDays habitData))))"
    using hd_desc_Max[of "dayNo latest" "map dayNo rest"] by simp
  then have m: "dayNo latest = Max (set (doneDays habitData))" by simp
  have c: "currentLoop (map timeOf ?S) 1 = runBack (rev (sort (doneDays habitData)))"
    unfolding tS r using currentLoop_days[of 1 "dayNo latest" "map dayNo rest"] by simp
  have g: "longestLoop (map timeOf ?A) 1 1 = runScan (sort (doneDays habitData)) 1 1"
    unfolding tA using st(1) by (rule longestLoop_days)
  have "streakOf today yesterday habitData =
         Inr \<lparr>current = (if latest = today \<or> latest = yesterday
                          then runBack (rev (sort (doneDays habitData))) else 0),
              longest = runScan (sort (doneDays habitData)) 1 1\<rparr>"
    using assms(2,3) S c g by (simp add: streakOf_def Let_def dateMs_def)
  with l m show ?thesis by blast
qed

text \<open>The scan finds the longest run of consecutive days.\<close>

lemma run_in_insert:
  assumes below: "\<forall>p \<in> P. p < y" and run: "\<forall>i < k. a + int i \<in> insert y P"
  shows "(\<forall>i < k. a + int i \<in> P)
       \<or> (1 \<le> k \<and> a + int (k - 1) = y \<and> (\<forall>i < k - 1. a + int i \<in> P))"
proof (cases "\<exists>i < k. a + int i = y")
  case False
  with run show ?thesis by auto
next
  case True
  then obtain i where i: "i < k" "a + int i = y" by blast
  have "i = k - 1"
  proof (rule ccontr)
    assume "i \<noteq> k - 1"
    with i(1) have s: "Suc i < k" by simp
    with run have "a + int (Suc i) \<in> insert y P" by blast
    moreover have "y < a + int (Suc i)" using i(2) by simp
    ultimately show False using below by auto
  qed
  moreover have "a + int j \<in> P" if "j < k - 1" for j
  proof -
    from that have "j < k" by simp
    with run have "a + int j \<in> insert y P" by blast
    moreover have "a + int j \<noteq> y" using that i(2) \<open>i = k - 1\<close> by simp
    ultimately show ?thesis by simp
  qed
  ultimately show ?thesis using i by auto
qed

lemma scanInv_extend:
  assumes "scanInv P x t l" and "y = x + 1"
  shows "scanInv (insert y P) y (t + 1) (max l (t + 1))"
proof -
  from assms(1) have p: "x \<in> P" "\<forall>p \<in> P. p \<le> x" "1 \<le> t" "\<forall>i < t. x - int i \<in> P"
    "x - int t \<notin> P" "t \<le> l" "\<exists>a. \<forall>i < l. a + int i \<in> P"
    "\<forall>a k. (\<forall>i < k. a + int i \<in> P) \<longrightarrow> k \<le> l"
    unfolding scanInv_def by blast+
  let ?P = "insert y P"
  from p(2) assms(2) have below: "\<forall>p \<in> P. p < y" by auto
  then have le: "\<forall>p \<in> ?P. p \<le> y" by auto
  have i1: "\<forall>i < t + 1. y - int i \<in> ?P"
  proof (intro allI impI)
    fix i assume "i < t + 1"
    show "y - int i \<in> ?P"
    proof (cases i)
      case 0
      then show ?thesis by simp
    next
      case (Suc j)
      with \<open>i < t + 1\<close> have "j < t" by simp
      with p(4) have "x - int j \<in> P" by blast
      moreover have "y - int i = x - int j" using assms(2) Suc by simp
      ultimately show ?thesis by simp
    qed
  qed
  have i2: "y - int (t + 1) \<notin> ?P"
  proof -
    have eq: "y - int (t + 1) = x - int t" using assms(2) by simp
    from p(5) have "y - int (t + 1) \<notin> P" unfolding eq .
    moreover have "y - int (t + 1) \<noteq> y" by simp
    ultimately show ?thesis by blast
  qed
  have e: "\<exists>a. \<forall>i < max l (t + 1). a + int i \<in> ?P"
  proof (cases "t + 1 \<le> l")
    case True
    then have m: "max l (t + 1) = l" by simp
    from p(7) obtain a where "\<forall>i < l. a + int i \<in> P" by blast
    then have "\<forall>i < l. a + int i \<in> ?P" by blast
    then show ?thesis unfolding m by (rule exI)
  next
    case False
    then have m: "max l (t + 1) = t + 1" by simp
    have "\<forall>i < t + 1. (y - int t) + int i \<in> ?P"
    proof (intro allI impI)
      fix i assume a: "i < t + 1"
      then have lt: "t - i < t + 1" by simp
      have mem: "y - int (t - i) \<in> ?P" by (rule i1[rule_format, OF lt])
      have eq: "(y - int t) + int i = y - int (t - i)" using a by simp
      from mem show "(y - int t) + int i \<in> ?P" unfolding eq .
    qed
    then show ?thesis unfolding m by (rule exI)
  qed
  have u: "\<forall>a k. (\<forall>i < k. a + int i \<in> ?P) \<longrightarrow> k \<le> max l (t + 1)"
  proof (intro allI impI)
    fix a k assume r: "\<forall>i < k. a + int i \<in> ?P"
    from run_in_insert[OF below r] show "k \<le> max l (t + 1)"
    proof
      assume "\<forall>i < k. a + int i \<in> P"
      with p(8) have "k \<le> l" by blast
      then show ?thesis by simp
    next
      assume b: "1 \<le> k \<and> a + int (k - 1) = y \<and> (\<forall>i < k - 1. a + int i \<in> P)"
      have "k \<le> t + 1"
      proof (rule ccontr)
        assume "\<not> k \<le> t + 1"
        then have "t + 2 \<le> k" by simp
        then obtain n where n: "k = n + t + 2" by (metis le_Suc_ex add.commute add.assoc)
        then have c: "n < k - 1" by simp
        with b have nP: "a + int n \<in> P" by blast
        from b n have "a + int (n + t + 1) = y" by simp
        with assms(2) have "a + int n = x - int t" by simp
        with nP p(5) show False by simp
      qed
      then show ?thesis by simp
    qed
  qed
  have yP: "y \<in> ?P" by simp
  have t1: "1 \<le> t + 1" and tl: "t + 1 \<le> max l (t + 1)" by simp_all
  show ?thesis
    unfolding scanInv_def by (intro conjI yP le t1 i1 i2 tl e u)
qed


lemma scanInv_reset:
  assumes "scanInv P x t l" and "x + 1 < y"
  shows "scanInv (insert y P) y 1 l"
proof -
  from assms(1) have p: "x \<in> P" "\<forall>p \<in> P. p \<le> x" "1 \<le> t" "t \<le> l"
    "\<exists>a. \<forall>i < l. a + int i \<in> P"
    "\<forall>a k. (\<forall>i < k. a + int i \<in> P) \<longrightarrow> k \<le> l"
    unfolding scanInv_def by blast+
  let ?P = "insert y P"
  from p(2) assms(2) have below: "\<forall>p \<in> P. p < y" by auto
  then have le: "\<forall>p \<in> ?P. p \<le> y" by auto
  have yP: "y \<in> ?P" by simp
  have i1: "\<forall>i < (1::nat). y - int i \<in> ?P" by simp
  have "y - 1 \<notin> P" using p(2) assms(2) by auto
  then have i2: "y - int 1 \<notin> ?P" by simp
  have l1: "1 \<le> l" using p(3,4) by simp
  from p(5) obtain a where "\<forall>i < l. a + int i \<in> P" by blast
  then have "\<forall>i < l. a + int i \<in> ?P" by blast
  then have e: "\<exists>a. \<forall>i < l. a + int i \<in> ?P" by (rule exI)
  have u: "\<forall>a k. (\<forall>i < k. a + int i \<in> ?P) \<longrightarrow> k \<le> l"
  proof (intro allI impI)
    fix a k assume r: "\<forall>i < k. a + int i \<in> ?P"
    from run_in_insert[OF below r] show "k \<le> l"
    proof
      assume "\<forall>i < k. a + int i \<in> P"
      with p(6) show ?thesis by blast
    next
      assume b: "1 \<le> k \<and> a + int (k - 1) = y \<and> (\<forall>i < k - 1. a + int i \<in> P)"
      have "k \<le> 1"
      proof (rule ccontr)
        assume "\<not> k \<le> 1"
        then have "2 \<le> k" by simp
        then obtain n where n: "k = n + 2" by (metis le_Suc_ex add.commute)
        then have c: "n < k - 1" by simp
        from b have q: "\<forall>i < k - 1. a + int i \<in> P" by blast
        have nP: "a + int n \<in> P" by (rule q[rule_format, OF c])
        from b n have "a + int (n + 1) = y" by simp
        then have "a + int n = y - 1" by simp
        with nP \<open>y - 1 \<notin> P\<close> show False by simp
      qed
      with l1 show ?thesis by simp
    qed
  qed
  have one: "(1::nat) \<le> 1" by simp
  show ?thesis
    unfolding scanInv_def by (intro conjI yP le one i1 i2 l1 e u)
qed

lemma runScan_scanInv:
  assumes "sorted_wrt (<) (x # rest)" and "scanInv P x t l"
  shows "\<exists>z t'. scanInv (P \<union> set rest) z t' (runScan (x # rest) t l)"
  using assms
proof (induction rest arbitrary: x P t l)
  case Nil
  then show ?case by auto
next
  case (Cons y rest)
  from Cons.prems(1) have xy: "x < y" and srt: "sorted_wrt (<) (y # rest)" by simp_all
  have U: "insert y P \<union> set rest = P \<union> set (y # rest)" by auto
  show ?case
  proof (cases "y - x = 1")
    case True
    then have "y = x + 1" by simp
    from scanInv_extend[OF Cons.prems(2) this]
    have "scanInv (insert y P) y (t + 1) (max l (t + 1))" .
    from Cons.IH[OF srt this] have
      "\<exists>z t'. scanInv (insert y P \<union> set rest) z t' (runScan (y # rest) (t + 1) (max l (t + 1)))" .
    moreover have "runScan (x # y # rest) t l = runScan (y # rest) (t + 1) (max l (t + 1))"
      using True by simp
    ultimately show ?thesis unfolding U by (simp only:)
  next
    case False
    with xy have "x + 1 < y" by simp
    from scanInv_reset[OF Cons.prems(2) this]
    have "scanInv (insert y P) y 1 l" .
    from Cons.IH[OF srt this] have
      "\<exists>z t'. scanInv (insert y P \<union> set rest) z t' (runScan (y # rest) 1 l)" .
    moreover have "runScan (x # y # rest) t l = runScan (y # rest) 1 l"
      using False by simp
    ultimately show ?thesis unfolding U by (simp only:)
  qed
qed

lemma scanInv_single: "scanInv {x} x 1 1"
proof -
  have u: "\<forall>a k. (\<forall>i < k. a + int i \<in> {x}) \<longrightarrow> k \<le> 1"
  proof (intro allI impI)
    fix a k assume r: "\<forall>i < k. a + int i \<in> {x}"
    show "k \<le> 1"
    proof (rule ccontr)
      assume "\<not> k \<le> 1"
      then have "0 < k" "1 < k" by simp_all
      from r[rule_format, OF this(1)] r[rule_format, OF this(2)] show False by simp
    qed
  qed
  have e: "\<exists>a. \<forall>i < (1::nat). a + int i \<in> {x}"
    by (rule exI[of _ x]) simp
  have a: "x \<in> {x}" "\<forall>p \<in> {x}. p \<le> x" "(1::nat) \<le> 1" "\<forall>i < (1::nat). x - int i \<in> {x}"
    "x - int 1 \<notin> {x}" by simp_all
  show ?thesis unfolding scanInv_def by (intro conjI a e u)
qed

lemma runScan_longest_run:
  assumes "sorted_wrt (<) days" and "days \<noteq> []"
  shows "1 \<le> runScan days 1 1
     \<and> (\<exists>a. \<forall>i < runScan days 1 1. a + int i \<in> set days)
     \<and> (\<forall>a k. (\<forall>i < k. a + int i \<in> set days) \<longrightarrow> k \<le> runScan days 1 1)"
proof -
  from assms(2) obtain x rest where d: "days = x # rest" by (cases days) auto
  from runScan_scanInv[OF assms(1)[unfolded d] scanInv_single]
  obtain z t' where "scanInv ({x} \<union> set rest) z t' (runScan (x # rest) 1 1)" by blast
  moreover have "{x} \<union> set rest = set days" using d by simp
  ultimately have "scanInv (set days) z t' (runScan days 1 1)" using d by (simp only:)
  then show ?thesis unfolding scanInv_def by (meson le_trans)
qed

section \<open>The streaks\<close>

lemma calculateStreak_entry:
  "completions s = JObj cs \<Longrightarrow> entryOf cs habitId = JObj habitData \<Longrightarrow>
   calculateStreak today yesterday habitId s = streakOf today yesterday habitData"
  by (simp add: calculateStreak_def)

lemma doneDates_filter:
  "doneDates (filter (\<lambda>(date, st). st = JStr ''done'') habitData) = doneDates habitData"
  by (simp add: doneDates_def)

lemma streakOf_only_done:
  "streakOf today yesterday (filter (\<lambda>(date, st). st = JStr ''done'') habitData)
     = streakOf today yesterday habitData"
  unfolding streakOf_def doneDates_filter ..

text \<open>
  The example of the specification, with today 2024-01-04: three done days, the third of
  January skipped.
\<close>

lemma parseDate_examples:
  "parseDate ''2024-01-01'' = Some 19723"
  "parseDate ''2024-01-02'' = Some 19724"
  "parseDate ''2024-01-03'' = Some 19725"
  "parseDate ''2024-01-04'' = Some 19726"
  by (simp_all add: parseDate_def digitVal_def validDate_def daysInMonth_def epochDay_def
      daysBeforeYear_def daysBeforeMonth_def isLeap_def)

lemma doneDates_example:
  "doneDates [(''2024-01-01'', JStr ''done''), (''2024-01-02'', JStr ''done''),
              (''2024-01-03'', JStr ''skipped''), (''2024-01-04'', JStr ''done'')]
     = [''2024-01-01'', ''2024-01-02'', ''2024-01-04'']"
  by (simp add: doneDates_def)

lemma timeOf_examples:
  "timeOf ''2024-01-01'' = 1704067200000"
  "timeOf ''2024-01-02'' = 1704153600000"
  "timeOf ''2024-01-04'' = 1704326400000"
  by (simp_all add: timeOf_def dateMs_def parseDate_examples msPerDay_def)

lemma streakOf_example:
  "streakOf ''2024-01-04'' ''2024-01-03''
     [(''2024-01-01'', JStr ''done''), (''2024-01-02'', JStr ''done''),
      (''2024-01-03'', JStr ''skipped''), (''2024-01-04'', JStr ''done'')]
   = Inr \<lparr>current = 1, longest = 2\<rparr>"
  by (simp add: streakOf_def doneDates_example dateMs_def parseDate_examples timeOf_examples
      roundDays_def msPerDay_def)

lemma calculateStreak_example:
  "calculateStreak ''2024-01-04'' ''2024-01-03'' ''h''
     \<lparr>habits = [], completions = JObj [(''h'', JObj
        [(''2024-01-01'', JStr ''done''), (''2024-01-02'', JStr ''done''),
         (''2024-01-03'', JStr ''skipped''), (''2024-01-04'', JStr ''done'')])]\<rparr>
   = Inr \<lparr>current = 1, longest = 2\<rparr>"
  by (simp add: calculateStreak_def entryOf_def streakOf_example)

lemma doneDays_example:
  "doneDays [(''2024-01-01'', JStr ''done''), (''2024-01-02'', JStr ''done''),
              (''2024-01-03'', JStr ''skipped''), (''2024-01-04'', JStr ''done'')]
     = [19723, 19724, 19726]"
  by (simp add: doneDays_def doneDates_example dayNo_def parseDate_examples)

text \<open>
  Claim C2. Let the habit's record have distinct date keys and let its done-dates be
  calendar dates. With no done-date the current streak is 0. Otherwise let the most
  recent done-date be the one with the largest day number. If it is neither \<^verbatim>\<open>today\<close>
  nor \<^verbatim>\<open>yesterday\<close>, the current streak is 0. If it is one of them, the current streak
  is the length of the maximal run of done days that ends at it: it is at least 1, each
  of the days that many steps back from the most recent one is a done day, and the day
  before the run is not. Dates that are not \<^verbatim>\<open>done\<close> do not count: the result is the
  same on the record reduced to its \<^verbatim>\<open>done\<close> entries.
\<close>

theorem calculateStreak_current:
  assumes "completions s = JObj cs" and "entryOf cs habitId = JObj habitData"
    and "distinct (map fst habitData)"
    and "\<forall>k \<in> set (doneDates habitData). parseDate k \<noteq> None"
  shows "\<exists>st. calculateStreak today yesterday habitId s = Inr st
     \<and> (doneDates habitData = [] \<longrightarrow> current st = 0)
     \<and> (doneDates habitData \<noteq> [] \<longrightarrow>
          (\<exists>latest. latest \<in> set (doneDates habitData)
             \<and> dayNo latest = Max (set (doneDays habitData))
             \<and> (latest \<noteq> today \<and> latest \<noteq> yesterday \<longrightarrow> current st = 0)
             \<and> (latest = today \<or> latest = yesterday \<longrightarrow>
                  1 \<le> current st
                  \<and> (\<forall>i < current st. Max (set (doneDays habitData)) - int i \<in> set (doneDays habitData))
                  \<and> Max (set (doneDays habitData)) - int (current st) \<notin> set (doneDays habitData))))
     \<and> streakOf today yesterday (filter (\<lambda>(date, st). st = JStr ''done'') habitData)
          = streakOf today yesterday habitData"
proof (cases "doneDates habitData = []")
  case True
  then show ?thesis
    using assms(1,2) by (simp add: calculateStreak_entry streakOf_empty streakOf_only_done)
next
  case False
  let ?D = "doneDays habitData"
  let ?R = "rev (sort ?D)"
  from streakOf_days[OF assms(3,4) False, of today yesterday] obtain latest where
    l: "latest \<in> set (doneDates habitData)" "dayNo latest = Max (set ?D)"
    and s: "streakOf today yesterday habitData =
         Inr \<lparr>current = (if latest = today \<or> latest = yesterday then runBack ?R else 0),
              longest = runScan (sort ?D) 1 1\<rparr>"
    by blast
  have "length ?R = length (doneDates habitData)" by (simp add: doneDays_def)
  with False have ne: "?R \<noteq> []" by (metis length_0_conv)
  then obtain a ds where R: "?R = a # ds" by (cases ?R) auto
  have strict: "sorted_wrt (>) ?R"
    using strict_sort_days(2)[OF distinct_doneDates[OF assms(3)] assms(4)] by (simp add: doneDays_def)
  have a: "a = Max (set ?D)"
    using hd_desc_Max[of a ds] strict R by (metis set_rev set_sort)
  from runBack_run[of a ds] strict R
  have run: "1 \<le> runBack ?R" "\<forall>i < runBack ?R. a - int i \<in> set ?R" "a - int (runBack ?R) \<notin> set ?R"
    by simp_all
  have set: "set ?R = set ?D" by simp
  let ?st = "\<lparr>current = (if latest = today \<or> latest = yesterday then runBack ?R else 0),
              longest = runScan (sort ?D) 1 1\<rparr>"
  have c: "calculateStreak today yesterday habitId s = Inr ?st"
    using assms(1,2) s by (simp add: calculateStreak_entry)
  have z: "latest \<noteq> today \<and> latest \<noteq> yesterday \<longrightarrow> current ?st = 0" by simp
  have r: "latest = today \<or> latest = yesterday \<longrightarrow>
      1 \<le> current ?st
      \<and> (\<forall>i < current ?st. Max (set ?D) - int i \<in> set ?D)
      \<and> Max (set ?D) - int (current ?st) \<notin> set ?D"
    using run a set by auto
  from c l z r False streakOf_only_done show ?thesis by blast
qed

text \<open>The example: the most recent done day is today, and the day before it is skipped.\<close>

theorem calculateStreak_current_witness:
  "distinct (map fst [(''2024-01-01'', JStr ''done''), (''2024-01-02'', JStr ''done''),
                      (''2024-01-03'', JStr ''skipped''), (''2024-01-04'', JStr ''done'')])
   \<and> parseDate ''2024-01-01'' \<noteq> None \<and> parseDate ''2024-01-02'' \<noteq> None
   \<and> parseDate ''2024-01-04'' \<noteq> None
   \<and> calculateStreak ''2024-01-04'' ''2024-01-03'' ''h''
        \<lparr>habits = [], completions = JObj [(''h'', JObj
           [(''2024-01-01'', JStr ''done''), (''2024-01-02'', JStr ''done''),
            (''2024-01-03'', JStr ''skipped''), (''2024-01-04'', JStr ''done'')])]\<rparr>
      = Inr \<lparr>current = 1, longest = 2\<rparr>
   \<and> Max (set (doneDays [(''2024-01-01'', JStr ''done''), (''2024-01-02'', JStr ''done''),
                           (''2024-01-03'', JStr ''skipped''), (''2024-01-04'', JStr ''done'')])) = 19726
   \<and> 19726 - int 0 \<in> set (doneDays [(''2024-01-01'', JStr ''done''), (''2024-01-02'', JStr ''done''),
                           (''2024-01-03'', JStr ''skipped''), (''2024-01-04'', JStr ''done'')])
   \<and> 19726 - int 1 \<notin> set (doneDays [(''2024-01-01'', JStr ''done''), (''2024-01-02'', JStr ''done''),
                           (''2024-01-03'', JStr ''skipped''), (''2024-01-04'', JStr ''done'')])"
proof -
  let ?hd = "[(''2024-01-01'', JStr ''done''), (''2024-01-02'', JStr ''done''),
              (''2024-01-03'', JStr ''skipped''), (''2024-01-04'', JStr ''done'')]"
  let ?cs = "[(''h'', JObj ?hd)]"
  let ?s = "\<lparr>habits = [], completions = JObj ?cs\<rparr>"
  have h1: "completions ?s = JObj ?cs" by simp
  have h2: "entryOf ?cs ''h'' = JObj ?hd" by (simp add: entryOf_def)
  have h3: "distinct (map fst ?hd)" by simp
  have h4: "\<forall>k \<in> set (doneDates ?hd). parseDate k \<noteq> None"
    by (simp add: doneDates_example parseDate_examples)
  have ne: "doneDates ?hd \<noteq> []" by (simp add: doneDates_example)
  have mx: "Max (set (doneDays ?hd)) = 19726" by (simp add: doneDays_example)
  from calculateStreak_current[OF h1 h2 h3 h4, of "''2024-01-04''" "''2024-01-03''"] ne
  obtain st latest where
    c: "calculateStreak ''2024-01-04'' ''2024-01-03'' ''h'' ?s = Inr st"
    and l: "latest \<in> set (doneDates ?hd)" "dayNo latest = Max (set (doneDays ?hd))"
    and r: "latest = ''2024-01-04'' \<or> latest = ''2024-01-03'' \<longrightarrow>
        1 \<le> current st
        \<and> (\<forall>i < current st. Max (set (doneDays ?hd)) - int i \<in> set (doneDays ?hd))
        \<and> Max (set (doneDays ?hd)) - int (current st) \<notin> set (doneDays ?hd)"
    by blast
  from l mx have "latest = ''2024-01-04''"
    by (auto simp: doneDates_example dayNo_def parseDate_examples)
  with r have q: "1 \<le> current st"
    "\<forall>i < current st. Max (set (doneDays ?hd)) - int i \<in> set (doneDays ?hd)"
    "Max (set (doneDays ?hd)) - int (current st) \<notin> set (doneDays ?hd)" by blast+
  from c calculateStreak_example have st: "st = \<lparr>current = 1, longest = 2\<rparr>" by simp
  from q(2) st have a: "Max (set (doneDays ?hd)) - int 0 \<in> set (doneDays ?hd)" by simp
  from q(3) st have b: "Max (set (doneDays ?hd)) - int 1 \<notin> set (doneDays ?hd)" by simp
  from h3 c st mx a b show ?thesis
    by (simp add: parseDate_examples)
qed

text \<open>
  Claim C3. Under the same conditions the longest streak is what the specification
  describes: 0 without a done-date; otherwise the result of scanning the ascending
  done days, extending the running length at a gap of one day and resetting it to 1 at
  any other gap, which is at least 1. It is the length of the longest run of consecutive
  done days: there is a run of that length and none longer. On the example of the
  specification the result is current 1 and longest 2.
\<close>

theorem calculateStreak_longest:
  assumes "completions s = JObj cs" and "entryOf cs habitId = JObj habitData"
    and "distinct (map fst habitData)"
    and "\<forall>k \<in> set (doneDates habitData). parseDate k \<noteq> None"
  shows "(\<exists>st. calculateStreak today yesterday habitId s = Inr st
       \<and> longest st = longestSpec (doneDays habitData)
       \<and> (doneDates habitData = [] \<longrightarrow> longest st = 0)
       \<and> (doneDates habitData \<noteq> [] \<longrightarrow> 1 \<le> longest st)
       \<and> (\<exists>a. \<forall>i < longest st. a + int i \<in> set (doneDays habitData))
       \<and> (\<forall>a k. (\<forall>i < k. a + int i \<in> set (doneDays habitData)) \<longrightarrow> k \<le> longest st))
     \<and> calculateStreak ''2024-01-04'' ''2024-01-03'' ''h''
          \<lparr>habits = [], completions = JObj [(''h'', JObj
             [(''2024-01-01'', JStr ''done''), (''2024-01-02'', JStr ''done''),
              (''2024-01-03'', JStr ''skipped''), (''2024-01-04'', JStr ''done'')])]\<rparr>
        = Inr \<lparr>current = 1, longest = 2\<rparr>"
proof (cases "doneDates habitData = []")
  case True
  then have d: "doneDays habitData = []" by (simp add: doneDays_def)
  have c: "calculateStreak today yesterday habitId s = Inr \<lparr>current = 0, longest = 0\<rparr>"
    using assms(1,2) True by (simp add: calculateStreak_entry streakOf_empty)
  have u: "\<forall>a k. (\<forall>i < k. a + int i \<in> set (doneDays habitData)) \<longrightarrow> k \<le> 0"
  proof (intro allI impI)
    fix a k assume r: "\<forall>i < k. a + int i \<in> set (doneDays habitData)"
    show "k \<le> 0"
    proof (rule ccontr)
      assume "\<not> k \<le> 0"
      then have "0 < k" by simp
      from r[rule_format, OF this] d show False by simp
    qed
  qed
  from c d u True calculateStreak_example show ?thesis
    by (simp add: longestSpec_def)
next
  case False
  let ?D = "doneDays habitData"
  from streakOf_days[OF assms(3,4) False, of today yesterday] obtain latest where
    s: "streakOf today yesterday habitData =
         Inr \<lparr>current = (if latest = today \<or> latest = yesterday then runBack (rev (sort ?D)) else 0),
              longest = runScan (sort ?D) 1 1\<rparr>"
    by blast
  let ?st = "\<lparr>current = (if latest = today \<or> latest = yesterday then runBack (rev (sort ?D)) else 0),
              longest = runScan (sort ?D) 1 1\<rparr>"
  have c: "calculateStreak today yesterday habitId s = Inr ?st"
    using assms(1,2) s by (simp add: calculateStreak_entry)
  have "length ?D = length (doneDates habitData)" by (simp add: doneDays_def)
  with False have ne: "?D \<noteq> []" by (metis length_0_conv)
  then have ne': "sort ?D \<noteq> []" by (metis length_sort length_0_conv)
  have strict: "sorted_wrt (<) (sort ?D)"
    using strict_sort_days(1)[OF distinct_doneDates[OF assms(3)] assms(4)] by (simp add: doneDays_def)
  from runScan_longest_run[OF strict ne']
  have r: "1 \<le> runScan (sort ?D) 1 1"
    "\<exists>a. \<forall>i < runScan (sort ?D) 1 1. a + int i \<in> set ?D"
    "\<forall>a k. (\<forall>i < k. a + int i \<in> set ?D) \<longrightarrow> k \<le> runScan (sort ?D) 1 1"
    by simp_all
  have l: "longest ?st = longestSpec ?D" using ne by (simp add: longestSpec_def)
  have l': "longest ?st = runScan (sort ?D) 1 1" by simp
  have "longest ?st = longestSpec ?D
       \<and> (doneDates habitData = [] \<longrightarrow> longest ?st = 0)
       \<and> (doneDates habitData \<noteq> [] \<longrightarrow> 1 \<le> longest ?st)
       \<and> (\<exists>a. \<forall>i < longest ?st. a + int i \<in> set ?D)
       \<and> (\<forall>a k. (\<forall>i < k. a + int i \<in> set ?D) \<longrightarrow> k \<le> longest ?st)"
    unfolding l' using l[unfolded l'] r False by blast
  with c calculateStreak_example show ?thesis by blast
qed

text \<open>The example again: its longest streak is the two days from 2024-01-01.\<close>

theorem calculateStreak_longest_witness:
  "distinct (map fst [(''2024-01-01'', JStr ''done''), (''2024-01-02'', JStr ''done''),
                      (''2024-01-03'', JStr ''skipped''), (''2024-01-04'', JStr ''done'')])
   \<and> parseDate ''2024-01-01'' \<noteq> None \<and> parseDate ''2024-01-02'' \<noteq> None
   \<and> parseDate ''2024-01-04'' \<noteq> None
   \<and> (\<exists>st. calculateStreak ''2024-01-04'' ''2024-01-03'' ''h''
          \<lparr>habits = [], completions = JObj [(''h'', JObj
             [(''2024-01-01'', JStr ''done''), (''2024-01-02'', JStr ''done''),
              (''2024-01-03'', JStr ''skipped''), (''2024-01-04'', JStr ''done'')])]\<rparr> = Inr st
        \<and> longest st = longestSpec (doneDays
             [(''2024-01-01'', JStr ''done''), (''2024-01-02'', JStr ''done''),
              (''2024-01-03'', JStr ''skipped''), (''2024-01-04'', JStr ''done'')])
        \<and> longest st = 2)
   \<and> longestSpec [19723, 19724, 19726] = 2"
proof -
  let ?hd = "[(''2024-01-01'', JStr ''done''), (''2024-01-02'', JStr ''done''),
              (''2024-01-03'', JStr ''skipped''), (''2024-01-04'', JStr ''done'')]"
  let ?cs = "[(''h'', JObj ?hd)]"
  let ?s = "\<lparr>habits = [], completions = JObj ?cs\<rparr>"
  have h1: "completions ?s = JObj ?cs" by simp
  have h2: "entryOf ?cs ''h'' = JObj ?hd" by (simp add: entryOf_def)
  have h3: "distinct (map fst ?hd)" by simp
  have h4: "\<forall>k \<in> set (doneDates ?hd). parseDate k \<noteq> None"
    by (simp add: doneDates_example parseDate_examples)
  from calculateStreak_longest[OF h1 h2 h3 h4, of "''2024-01-04''" "''2024-01-03''"]
  obtain st where
    c: "calculateStreak ''2024-01-04'' ''2024-01-03'' ''h'' ?s = Inr st"
    and l: "longest st = longestSpec (doneDays ?hd)"
    by blast
  from c calculateStreak_example have "st = \<lparr>current = 1, longest = 2\<rparr>" by simp
  then have st: "longest st = 2" by simp
  with l have "longestSpec [19723, 19724, 19726] = 2" by (simp add: doneDays_example)
  with h3 c l st show ?thesis
    by (auto simp: parseDate_examples)
qed

end
